theory Spec2Isabelle
  imports
    Complex_Main
    "HOL-Library.Word"
    "HOL-Library.Signed_Division"
    "HOL-Library.AList"
    "HOL-Library.Log_Nat"
begin

unbundle bit_operations_syntax

section \<open>The JPEG backend of the slide reader (openslide-ops-jpeg.c)\<close>

text \<open>
  C integers are modelled as \<open>int\<close>; \<open>/\<close> on C integers is \<open>sdiv\<close> (truncation
  towards zero), \<open>%\<close> is \<open>smod\<close>. Where the source narrows a value or multiplies in an
  unsigned 32-bit type the wrap-around is written out. Pixels and bytes are words.
  A failed \<open>g_assert\<close> (with the asserted expression), an access outside an array,
  a division by zero, the fatal \<open>ERREXIT\<close> of the input source and the conversion of a
  double to an integer type that cannot hold its integral part are values of type
  \<open>fault\<close>: every function that can hit one returns \<open>fault + 'a\<close>. A loop whose termination is not structural is a
  partial function into \<open>option\<close>: \<open>None\<close> is a run that never returns.
\<close>

datatype fault =
    AssertionFailed string
  | OutOfBounds
  | DivideByZero
  | InputEmpty
  | UndefinedConversion

type_synonym byte = "8 word"

subsection \<open>Double-precision numbers\<close>

text \<open>
  The \<open>double\<close> of the source is taken to be the IEEE 754 binary64 format, with
  operations rounded to the nearest value, ties to the even significand, and evaluated
  in that format. A value is a finite number, given by its sign (\<open>True\<close> is minus) and
  its magnitude, so that there are two zeros; or an infinity with its sign; or a NaN.
\<close>

datatype double = Finite bool rat | Infinity bool | NaN

text \<open>
  The exponent of a positive rational \<open>q\<close>: the \<open>e\<close> with \<open>2 ^ e \<le> q < 2 ^ (e + 1)\<close>.
  For \<open>q = a / b\<close> it is the difference of the bit lengths of \<open>a\<close> and \<open>b\<close>, or one less.
\<close>

definition floor_log2 :: "rat \<Rightarrow> int" where
  "floor_log2 q =
     (case quotient_of q of
        (a, b) \<Rightarrow>
          (let e0 = bitlen a - bitlen b
           in if power_int 2 e0 \<le> q then e0 else e0 - 1))"

definition round_half_even :: "rat \<Rightarrow> int" where
  "round_half_even q =
     (let f = \<lfloor>q\<rfloor>; r = q - of_int f
      in if r < 1 / 2 then f
         else if 1 / 2 < r then f + 1
         else if even f then f else f + 1)"

text \<open>
  Rounding of a magnitude \<open>q \<ge> 0\<close> to the format: 53 significant bits, the exponent
  not below \<open>-1022\<close> (below that the numbers are subnormal, with a fixed spacing of
  \<open>2 ^ -1074\<close>), and infinity when the rounded value reaches \<open>2 ^ 1024\<close>.
\<close>

definition round_magnitude :: "bool \<Rightarrow> rat \<Rightarrow> double" where
  "round_magnitude s q =
     (if q = 0 then Finite s 0
      else
        (let e = max (floor_log2 q) (- 1022);
             ulp = power_int 2 (e - 52);
             r = of_int (round_half_even (q / ulp)) * ulp
         in if r \<ge> 2 ^ 1024 then Infinity s else Finite s r))"

text \<open>The conversion \<open>(double) v\<close> of an integer.\<close>

definition double_of_int :: "int \<Rightarrow> double" where
  "double_of_int v = round_magnitude (v < 0) (of_int \<bar>v\<bar>)"

text \<open>The quotient \<open>x / y\<close> of two doubles.\<close>

fun double_div :: "double \<Rightarrow> double \<Rightarrow> double" where
  "double_div NaN y = NaN"
| "double_div (Infinity s) NaN = NaN"
| "double_div (Infinity s) (Infinity t) = NaN"
| "double_div (Infinity s) (Finite t b) = Infinity (s \<noteq> t)"
| "double_div (Finite s a) NaN = NaN"
| "double_div (Finite s a) (Infinity t) = Finite (s \<noteq> t) 0"
| "double_div (Finite s a) (Finite t b) =
     (if b = 0 then (if a = 0 then NaN else Infinity (s \<noteq> t))
      else round_magnitude (s \<noteq> t) (a / b))"

text \<open>
  The conversion \<open>(int64_t) d\<close>: the fraction is dropped. The behaviour is undefined
  when \<open>d\<close> is not finite or its integral part is outside the range of \<open>int64_t\<close>.
\<close>

definition int64_of_double :: "double \<Rightarrow> fault + int" where
  "int64_of_double d =
     (case d of
        Finite s m \<Rightarrow>
          (let t = (if s then - \<lfloor>m\<rfloor> else \<lfloor>m\<rfloor>)
           in if - (2 ^ 63) \<le> t \<and> t < 2 ^ 63 then Inr t else Inl UndefinedConversion)
      | Infinity s \<Rightarrow> Inl UndefinedConversion
      | NaN \<Rightarrow> Inl UndefinedConversion)"

subsection \<open>Data model\<close>

text \<open>
  What the JPEG library reports about one file. The library is a black box for this
  backend, so its answers travel with the file: the fields of \<open>cinfo\<close> the backend
  reads after \<open>jpeg_read_header\<close> / \<open>jpeg_start_decompress\<close>, the file offset
  of the first byte the library has not consumed at that moment (\<open>data_start\<close>),
  and the first saved COM marker.
\<close>

record jpeg_file =
  file_bytes :: "byte list"
  MCUs_per_row :: nat
  MCU_rows_in_scan :: nat
  restart_interval :: nat
  output_width :: nat
  output_height :: nat
  data_start :: nat
  com_marker :: "string option"

record one_jpeg =
  jpeg_f :: jpeg_file
  mcu_starts_count :: int
  mcu_starts :: "int list"
  tile_width :: int
  tile_height :: int
  width :: int
  height :: int
  comment :: "string option"

record layer =
  layer_jpegs :: "one_jpeg list"
  pixel_w :: int
  pixel_h :: int
  jpegs_across :: int
  jpegs_down :: int
  image00_w :: int
  image00_h :: int
  scale_denom :: int
  no_scale_denom_downsample :: double

record fragment =
  fr_f :: jpeg_file
  fr_x :: int
  fr_y :: int
  fr_z :: int

subsection \<open>Pyramid builder\<close>

fun is_zxy_successor :: "int \<Rightarrow> int \<Rightarrow> int \<Rightarrow> int \<Rightarrow> int \<Rightarrow> int \<Rightarrow> bool" where
  "is_zxy_successor pz px py z x y =
     (if z = pz + 1 then x = 0 \<and> y = 0
      else if z \<noteq> pz then False
      else if y = py + 1 then x = 0
      else if y \<noteq> py then False
      else x = px + 1)"

text \<open>
  The hash table from published width to layer is an association list with distinct keys.
  \<open>g_hash_table_insert\<close> replaces the value of a key that is already present.
\<close>

type_synonym wlmap = "(int \<times> layer) list"

definition g_hash_table_insert :: "wlmap \<Rightarrow> int \<Rightarrow> layer \<Rightarrow> wlmap" where
  "g_hash_table_insert m key l = AList.update key l m"

definition g_hash_table_size :: "wlmap \<Rightarrow> nat" where
  "g_hash_table_size m = length m"

text \<open>
  The copy loop \<open>for (i = 0; i < num_jpegs; i++) { g_assert(jj); ... jj = jj->next; }\<close>:
  it fails when the list ends before \<open>num_jpegs\<close> elements are copied.
\<close>

fun copy_layer_jpegs :: "one_jpeg list \<Rightarrow> nat \<Rightarrow> fault + one_jpeg list" where
  "copy_layer_jpegs jj 0 = Inr []"
| "copy_layer_jpegs [] (Suc n) = Inl (AssertionFailed ''jj'')"
| "copy_layer_jpegs (j # jj) (Suc n) =
     (case copy_layer_jpegs jj n of Inl e \<Rightarrow> Inl e | Inr js \<Rightarrow> Inr (j # js))"

text \<open>One pass through the body of the \<open>while (scale_denom <= 8)\<close> loop.\<close>

definition generate_layer ::
  "one_jpeg list \<Rightarrow> int \<Rightarrow> int \<Rightarrow> int \<Rightarrow> int \<Rightarrow> int \<Rightarrow> int \<Rightarrow> int \<Rightarrow> int \<Rightarrow> fault + layer" where
  "generate_layer jpegs ja jd pw ph i00w i00h l0w sd =
     (case copy_layer_jpegs jpegs (nat (ja * jd)) of
        Inl e \<Rightarrow> Inl e
      | Inr lj \<Rightarrow> Inr \<lparr> layer_jpegs = lj, pixel_w = pw, pixel_h = ph,
                      jpegs_across = ja, jpegs_down = jd,
                      image00_w = i00w, image00_h = i00h,
                      scale_denom = sd,
                      no_scale_denom_downsample =
                        double_div (double_of_int l0w) (double_of_int pw) \<rparr>)"

text \<open>
  The loop itself, from any starting \<open>scale_denom\<close>. It doubles the variable until it
  exceeds 8, so from a value below 1 it would not end: the result is an option.
\<close>

partial_function (option) generate_layers_while ::
  "one_jpeg list \<Rightarrow> int \<Rightarrow> int \<Rightarrow> int \<Rightarrow> int \<Rightarrow> int \<Rightarrow> int \<Rightarrow> int \<Rightarrow> int \<Rightarrow> wlmap
     \<Rightarrow> (fault + wlmap) option" where
  "generate_layers_while jpegs ja jd pw ph i00w i00h l0w sd m =
     (if sd \<le> 8 then
        (let r = generate_layer jpegs ja jd pw ph i00w i00h l0w sd in
         if isl r then Some (Inl (projl r))
         else generate_layers_while jpegs ja jd pw ph i00w i00h l0w (sd * 2)
                (g_hash_table_insert m (pixel_w (projr r) sdiv scale_denom (projr r)) (projr r)))
      else Some (Inr m))"

definition generate_layers_into_map ::
  "one_jpeg list \<Rightarrow> int \<Rightarrow> int \<Rightarrow> int \<Rightarrow> int \<Rightarrow> int \<Rightarrow> int \<Rightarrow> int \<Rightarrow> wlmap
     \<Rightarrow> (fault + wlmap) option" where
  "generate_layers_into_map jpegs ja jd pw ph i00w i00h l0w m =
     generate_layers_while jpegs ja jd pw ph i00w i00h l0w 1 m"

text \<open>
  The locals of \<open>create_width_to_layer_map\<close>. The loop over \<open>i < count\<close> reads
  \<open>fragments[i]\<close> and \<open>jpegs + i\<close> together, so it is a recursion over the list of
  these pairs; \<open>i == count - 1\<close> is an empty rest and \<open>fragments[i + 1]\<close> is the head
  of the rest. A \<open>one_jpeg\<close> is not changed after \<open>init_one_jpeg\<close>, so the pointer
  \<open>oj\<close> stored in a layer is modelled by the record itself.
\<close>

record cwl_locals =
  prev_z :: int
  prev_x :: int
  prev_y :: int
  layer_jpegs_tmp :: "one_jpeg list"
  l_pw :: int
  l_ph :: int
  img00_w :: int
  img00_h :: int
  layer0_w :: int
  width_to_layer_map :: wlmap

text \<open>
  The statements of one iteration before the flush test. The block
  \<open>if (prev_z == -1) { prev_z = 0; prev_x = 0; prev_y = 0; }\<close> is kept: the three
  variables are overwritten at the end of the iteration before they are read again.
\<close>

definition cwl_accumulate :: "cwl_locals \<Rightarrow> fragment \<Rightarrow> one_jpeg \<Rightarrow> cwl_locals" where
  "cwl_accumulate s fr oj =
     (let s1 = (if prev_z s = -1 then s\<lparr>prev_z := 0, prev_x := 0, prev_y := 0\<rparr> else s);
          s2 = (if fr_x fr = 0 \<and> fr_y fr = 0
                then s1\<lparr>img00_w := width oj, img00_h := height oj\<rparr> else s1);
          s3 = (if fr_y fr = 0 then s2\<lparr>l_pw := l_pw s2 + width oj\<rparr> else s2);
          s4 = (if fr_x fr = 0 then s3\<lparr>l_ph := l_ph s3 + height oj\<rparr> else s3)
      in s4\<lparr>layer_jpegs_tmp := oj # layer_jpegs_tmp s4\<rparr>)"

fun cwl_loop :: "cwl_locals \<Rightarrow> (fragment \<times> one_jpeg) list \<Rightarrow> (fault + wlmap) option" where
  "cwl_loop s [] = Some (Inr (width_to_layer_map s))"
| "cwl_loop s ((fr, oj) # rest) =
     (if \<not> is_zxy_successor (prev_z s) (prev_x s) (prev_y s) (fr_z fr) (fr_x fr) (fr_y fr)
      then Some (Inl (AssertionFailed ''is_zxy_successor''))
      else
        let s1 = cwl_accumulate s fr oj in
        if rest = [] \<or> fr_z (fst (hd rest)) \<noteq> fr_z fr then
          (let s2 = s1\<lparr>layer_jpegs_tmp := rev (layer_jpegs_tmp s1)\<rparr>;
               s3 = (if fr_z fr = 0 then s2\<lparr>layer0_w := l_pw s2\<rparr> else s2)
           in case generate_layers_into_map (layer_jpegs_tmp s3) (fr_x fr + 1) (fr_y fr + 1)
                     (l_pw s3) (l_ph s3) (img00_w s3) (img00_h s3) (layer0_w s3)
                     (width_to_layer_map s3) of
                None \<Rightarrow> None
              | Some (Inl e) \<Rightarrow> Some (Inl e)
              | Some (Inr m) \<Rightarrow>
                  cwl_loop (s3\<lparr>width_to_layer_map := m, l_pw := 0, l_ph := 0,
                               img00_w := 0, img00_h := 0, layer_jpegs_tmp := [],
                               prev_z := fr_z fr, prev_x := fr_x fr, prev_y := fr_y fr\<rparr>) rest)
        else cwl_loop (s1\<lparr>prev_z := fr_z fr, prev_x := fr_x fr, prev_y := fr_y fr\<rparr>) rest)"

definition cwl_init :: cwl_locals where
  "cwl_init = \<lparr> prev_z = -1, prev_x = -1, prev_y = -1, layer_jpegs_tmp = [],
                l_pw = 0, l_ph = 0, img00_w = 0, img00_h = 0, layer0_w = 0,
                width_to_layer_map = [] \<rparr>"

text \<open>\<open>count\<close> is the length of both arrays.\<close>

definition create_width_to_layer_map ::
  "fragment list \<Rightarrow> one_jpeg list \<Rightarrow> (fault + wlmap) option" where
  "create_width_to_layer_map fragments jpegs = cwl_loop cwl_init (zip fragments jpegs)"

subsection \<open>Fancy source\<close>

text \<open>
  The source manager together with the \<open>FILE\<close> it reads: \<open>infile\<close> is the content of
  the file and \<open>file_pos\<close> the position \<open>ftello\<close> returns. \<open>buffer\<close> holds the bytes
  of the last fill (the first \<open>nbytes\<close> cells of the C array); \<open>next_input_byte\<close> is
  an index into it. The fields \<open>width\<close> and \<open>stride\<close> are \<open>src_width\<close> and
  \<open>src_stride\<close> here.
\<close>

record my_src_mgr =
  infile :: "byte list"
  file_pos :: int
  buffer :: "byte list"
  next_input_byte :: nat
  bytes_in_buffer :: nat
  start_of_file :: bool
  next_restart_marker :: byte
  next_start_offset :: int
  next_start_position :: int
  stop_position :: int
  start_positions :: "int list"
  start_positions_count :: int
  topleft :: int
  src_width :: int
  src_stride :: int

definition INPUT_BUF_SIZE :: int where
  "INPUT_BUF_SIZE = 4096"

definition INT64_MAX :: int where
  "INT64_MAX = 2 ^ 63 - 1"

definition JPEG_EOI :: byte where
  "JPEG_EOI = 0xD9"

text \<open>A read of \<open>start_positions[i]\<close>.\<close>

definition start_positions_at :: "my_src_mgr \<Rightarrow> int \<Rightarrow> fault + int" where
  "start_positions_at src i =
     (if 0 \<le> i \<and> i < int (length (start_positions src))
      then Inr (start_positions src ! nat i) else Inl OutOfBounds)"

definition compute_next_positions :: "my_src_mgr \<Rightarrow> fault + my_src_mgr" where
  "compute_next_positions src =
     (if start_positions_count src = 0 then
        Inr (src\<lparr>next_start_position := 0, stop_position := INT64_MAX\<rparr>)
      else if start_of_file src then
        (let src1 = src\<lparr>next_start_offset := topleft src - src_stride src\<rparr> in
         case start_positions_at src1 0 of
           Inl e \<Rightarrow> Inl e
         | Inr p0 \<Rightarrow>
             if next_start_offset src1 < start_positions_count src1
             then Inr (src1\<lparr>stop_position := p0, next_start_position := 0\<rparr>)
             else Inl (AssertionFailed ''next_start_offset''))
      else
        (let src1 = src\<lparr>next_start_offset := next_start_offset src + src_stride src\<rparr> in
         if \<not> (next_start_offset src1 \<ge> 0
                \<and> next_start_offset src1 < start_positions_count src1)
         then Inl (AssertionFailed ''next_start_offset'')
         else
           case start_positions_at src1 (next_start_offset src1) of
             Inl e \<Rightarrow> Inl e
           | Inr p \<Rightarrow>
               (let src2 = src1\<lparr>next_start_position := p\<rparr>;
                    stop_offset = next_start_offset src2 + src_width src2
                in if stop_offset < start_positions_count src2 then
                     (case start_positions_at src2 stop_offset of
                        Inl e \<Rightarrow> Inl e
                      | Inr q \<Rightarrow> Inr (src2\<lparr>stop_position := q\<rparr>))
                   else Inr (src2\<lparr>stop_position := INT64_MAX\<rparr>))))"

definition init_source :: "my_src_mgr \<Rightarrow> fault + my_src_mgr" where
  "init_source src =
     compute_next_positions (src\<lparr>start_of_file := True, next_restart_marker := 0\<rparr>)"

text \<open>
  The C library calls on the file. \<open>fread\<close> returns the bytes from the position to the
  end of the file, at most \<open>n\<close> of them; \<open>fseeko\<close> to a negative offset fails and leaves
  the position where it was.
\<close>

definition fread :: "byte list \<Rightarrow> int \<Rightarrow> int \<Rightarrow> byte list" where
  "fread file pos n = take (nat n) (drop (nat pos) file)"

definition fseeko :: "int \<Rightarrow> int \<Rightarrow> int" where
  "fseeko pos off = (if off < 0 then pos else off)"

text \<open>
  \<open>MIN((int64_t) a, bytes_to_read)\<close> compares an \<open>int64_t\<close> with a \<open>size_t\<close>: the signed
  operand is converted to the unsigned 64-bit type first.
\<close>

definition MIN_size :: "int \<Rightarrow> int \<Rightarrow> int" where
  "MIN_size a b = (if a mod 2 ^ 64 < b then a mod 2 ^ 64 else b)"

text \<open>
  The marker loop of \<open>fill_input_buffer\<close> over the bytes just read, from the left:
  the rewritten bytes, the new \<open>next_restart_marker\<close> and the final \<open>last_was_ff\<close>.
\<close>

fun rewrite_restart_markers :: "bool \<Rightarrow> byte \<Rightarrow> byte list \<Rightarrow> byte list \<times> byte \<times> bool" where
  "rewrite_restart_markers last_was_ff nrm [] = ([], nrm, last_was_ff)"
| "rewrite_restart_markers last_was_ff nrm (b # bs) =
     (if last_was_ff \<and> b \<ge> 0xD0 \<and> b < 0xD8 then
        (case rewrite_restart_markers (b = 0xFF) ((nrm + 1) mod 8) bs of
           (bs', r) \<Rightarrow> ((0xD0 OR nrm) # bs', r))
      else
        (case rewrite_restart_markers (b = 0xFF) nrm bs of
           (bs', r) \<Rightarrow> (b # bs', r)))"

text \<open>
  \<open>fill_input_buffer\<close> in three parts. The first decides \<open>rewrite_markers\<close>: false in
  the header or without a table of positions.
\<close>

definition fill_rewrite_markers :: "my_src_mgr \<Rightarrow> fault + bool" where
  "fill_rewrite_markers src =
     (if start_positions_count src = 0 then Inr False
      else (case start_positions_at src 0 of
              Inl e \<Rightarrow> Inl e
            | Inr p0 \<Rightarrow> Inr (\<not> file_pos src < p0)))"

text \<open>
  The second part ends with the file at the position to read from and yields
  \<open>bytes_to_read\<close>: it stays inside the current segment, or jumps to the next one when
  the position has reached \<open>stop_position\<close>.
\<close>

definition fill_segment :: "my_src_mgr \<Rightarrow> fault + my_src_mgr \<times> int" where
  "fill_segment src =
     (let pos = file_pos src in
      if \<not> pos \<le> stop_position src then Inl (AssertionFailed ''pos <= stop_position'')
      else if pos < stop_position src then
        Inr (src, MIN_size (stop_position src - pos) INPUT_BUF_SIZE)
      else
        (case compute_next_positions src of
           Inl e \<Rightarrow> Inl e
         | Inr src1 \<Rightarrow>
             Inr (src1\<lparr>file_pos := fseeko pos (next_start_position src1)\<rparr>,
                  MIN_size (stop_position src1 - next_start_position src1) INPUT_BUF_SIZE)))"

text \<open>
  The third part is what follows \<open>nbytes = fread(...)\<close>, with \<open>fresh\<close> the bytes read
  (the file position has moved past them): the fake EOI on an empty read, the rewriting
  of the restart markers, and the step back when the read ends on \<open>0xFF\<close>.
\<close>

definition fill_buffer :: "bool \<Rightarrow> my_src_mgr \<Rightarrow> byte list \<Rightarrow> fault + my_src_mgr" where
  "fill_buffer rewrite_markers src fresh =
     (let src1 = src\<lparr>file_pos := file_pos src + int (length fresh)\<rparr> in
      if length fresh = 0 then
        (if start_of_file src1 then Inl InputEmpty
         else Inr (src1\<lparr>buffer := [0xFF, JPEG_EOI], next_input_byte := 0,
                         bytes_in_buffer := 2, start_of_file := False\<rparr>))
      else if rewrite_markers then
        (case rewrite_restart_markers False (next_restart_marker src1) fresh of
           (buf, nrm, last_was_ff) \<Rightarrow>
             (if last_was_ff \<and> length fresh > 1 then
                Inr (src1\<lparr>buffer := buf, next_restart_marker := nrm,
                           file_pos := file_pos src1 - 1,
                           next_input_byte := 0,
                           bytes_in_buffer := length fresh - 1,
                           start_of_file := False\<rparr>)
              else
                Inr (src1\<lparr>buffer := buf, next_restart_marker := nrm,
                           next_input_byte := 0,
                           bytes_in_buffer := length fresh,
                           start_of_file := False\<rparr>)))
      else
        Inr (src1\<lparr>buffer := fresh, next_input_byte := 0,
                   bytes_in_buffer := length fresh,
                   start_of_file := False\<rparr>))"

definition fill_input_buffer :: "my_src_mgr \<Rightarrow> fault + my_src_mgr" where
  "fill_input_buffer src =
     (case fill_rewrite_markers src of
        Inl e \<Rightarrow> Inl e
      | Inr rewrite_markers \<Rightarrow>
         (case fill_segment src of
            Inl e \<Rightarrow> Inl e
          | Inr (src2, bytes_to_read) \<Rightarrow>
              fill_buffer rewrite_markers src2
                (fread (infile src2) (file_pos src2) bytes_to_read)))"

definition openslide_jpeg_fancy_src_get_filepos :: "my_src_mgr \<Rightarrow> int" where
  "openslide_jpeg_fancy_src_get_filepos src = file_pos src - int (bytes_in_buffer src)"

text \<open>
  \<open>_openslide_jpeg_fancy_src\<close> on a decompressor whose file the caller has just rewound.
  The fields it does not set start at zero.
\<close>

definition openslide_jpeg_fancy_src ::
  "byte list \<Rightarrow> int list \<Rightarrow> int \<Rightarrow> int \<Rightarrow> int \<Rightarrow> int \<Rightarrow> my_src_mgr" where
  "openslide_jpeg_fancy_src f positions count tleft w st =
     \<lparr> infile = f, file_pos = 0, buffer = [], next_input_byte = 0, bytes_in_buffer = 0,
       start_of_file = False, next_restart_marker = 0, next_start_offset = 0,
       next_start_position = 0, stop_position = 0,
       start_positions = positions, start_positions_count = count,
       topleft = tleft, src_width = w, src_stride = st \<rparr>"

subsection \<open>One-JPEG index\<close>

text \<open>
  \<open>if (bytes_in_buffer == 0) fill_input_buffer(); b = *next_input_byte++;
  bytes_in_buffer--;\<close>
\<close>

definition read_source_byte :: "my_src_mgr \<Rightarrow> fault + byte \<times> my_src_mgr" where
  "read_source_byte src =
     (case (if bytes_in_buffer src = 0 then fill_input_buffer src else Inr src) of
        Inl e \<Rightarrow> Inl e
      | Inr src1 \<Rightarrow>
          if next_input_byte src1 < length (buffer src1) then
            Inr (buffer src1 ! next_input_byte src1,
                 src1\<lparr>next_input_byte := next_input_byte src1 + 1,
                       bytes_in_buffer := bytes_in_buffer src1 - 1\<rparr>)
          else Inl OutOfBounds)"

text \<open>
  \<open>jpeg_read_header\<close> and \<open>jpeg_start_decompress\<close> pull the header through the source:
  the library takes \<open>n\<close> bytes, one after the other, and refills the buffer when it is
  empty.
\<close>

fun jpeg_consume :: "nat \<Rightarrow> my_src_mgr \<Rightarrow> fault + my_src_mgr" where
  "jpeg_consume 0 src = Inr src"
| "jpeg_consume (Suc n) src =
     (case read_source_byte src of
        Inl e \<Rightarrow> Inl e
      | Inr (b, src1) \<Rightarrow> jpeg_consume n src1)"

text \<open>
  The \<open>while (marker < *mcu_starts_count)\<close> loop of \<open>compute_optimization\<close>. A write
  to \<open>(*mcu_starts)[k]\<close> outside the allocated table is the fault \<open>OutOfBounds\<close>.
\<close>

partial_function (option) find_restart_markers ::
  "my_src_mgr \<Rightarrow> int \<Rightarrow> int list \<Rightarrow> bool \<Rightarrow> int \<Rightarrow> (fault + int list) option" where
  "find_restart_markers src count starts last_was_ff marker =
     (if marker < count then
        (case read_source_byte src of
           Inl e \<Rightarrow> Some (Inl e)
         | Inr (b, src1) \<Rightarrow>
             if last_was_ff then
               (if b = JPEG_EOI then Some (Inr starts)
                else if b \<ge> 0xD0 \<and> b < 0xD8 then
                  (if 0 \<le> 1 + marker \<and> 1 + marker < int (length starts) then
                     find_restart_markers src1 count
                       (starts[nat (1 + marker) := openslide_jpeg_fancy_src_get_filepos src1])
                       (b = 0xFF) (marker + 1)
                   else Some (Inl OutOfBounds))
                else find_restart_markers src1 count starts (b = 0xFF) marker)
             else find_restart_markers src1 count starts (b = 0xFF) marker)
      else Some (Inr starts))"

text \<open>
  \<open>MCUs_per_row * MCU_rows_in_scan\<close> is a product of two \<open>unsigned int\<close>, so it wraps
  at 32 bits before it is widened. \<open>g_new0\<close> gives a table of \<open>count\<close> zeros.
\<close>

definition compute_optimization :: "jpeg_file \<Rightarrow> (fault + int \<times> int list) option" where
  "compute_optimization f =
     (case init_source (openslide_jpeg_fancy_src (file_bytes f) [] 0 0 0 0) of
        Inl e \<Rightarrow> Some (Inl e)
      | Inr src0 \<Rightarrow>
         (case jpeg_consume (data_start f) src0 of
            Inl e \<Rightarrow> Some (Inl e)
          | Inr src \<Rightarrow>
              (let MCUs = int ((MCUs_per_row f * MCU_rows_in_scan f) mod 2 ^ 32) in
               if restart_interval f = 0 then Some (Inl DivideByZero)
               else
                 (let count = MCUs sdiv int (restart_interval f);
                      starts = replicate (nat count) 0
                  in if \<not> 0 < length starts then Some (Inl OutOfBounds)
                     else
                       (case find_restart_markers src count
                               (starts[0 := openslide_jpeg_fancy_src_get_filepos src])
                               False 0 of
                          None \<Rightarrow> None
                        | Some (Inl e) \<Rightarrow> Some (Inl e)
                        | Some (Inr starts') \<Rightarrow> Some (Inr (count, starts')))))))"

text \<open>The conversion of a value to \<open>int32_t\<close>.\<close>

definition to_int32 :: "int \<Rightarrow> int" where
  "to_int32 v = signed_take_bit 31 v"

text \<open>
  \<open>init_one_jpeg\<close>. The second header pass of the library (comment and dimensions) is
  not traced through the source: what it yields is in the \<open>jpeg_file\<close>. The divisions
  for the tile size are unsigned 32-bit divisions, since \<open>MCUs_per_row\<close>,
  \<open>restart_interval\<close> and \<open>MCU_rows_in_scan\<close> are \<open>unsigned int\<close>.
\<close>

definition init_one_jpeg :: "fragment \<Rightarrow> (fault + one_jpeg) option" where
  "init_one_jpeg fragment =
     (let f = fr_f fragment in
      case compute_optimization f of
        None \<Rightarrow> None
      | Some (Inl e) \<Rightarrow> Some (Inl e)
      | Some (Inr (count, starts)) \<Rightarrow>
          (let w = to_int32 (int (output_width f));
               h = to_int32 (int (output_height f));
               tiles_across = MCUs_per_row f div restart_interval f
           in if restart_interval f = 0 \<or> tiles_across = 0 \<or> MCU_rows_in_scan f = 0
              then Some (Inl DivideByZero)
              else Some (Inr \<lparr> jpeg_f = f, mcu_starts_count = count, mcu_starts = starts,
                     tile_width = to_int32 ((w mod 2 ^ 32) div int tiles_across),
                     tile_height = to_int32 ((h mod 2 ^ 32) div int (MCU_rows_in_scan f)),
                     width = w, height = h,
                     comment = map_option (takeWhile (\<lambda>c. c \<noteq> CHR 0x00)) (com_marker f) \<rparr>)))"

subsection \<open>Setup\<close>

record jpegops_data =
  jpeg_count :: int
  all_jpegs :: "one_jpeg list"
  layers :: "layer list"

record openslide =
  layer_count :: int
  data :: "jpegops_data option"

definition width_compare :: "int \<Rightarrow> int \<Rightarrow> fault + int" where
  "width_compare w1 w2 =
     (if w1 \<ge> 0 \<and> w2 \<ge> 0 then Inr (of_bool (w1 < w2) - of_bool (w1 > w2))
      else Inl (AssertionFailed ''w1 >= 0 && w2 >= 0''))"

text \<open>
  \<open>g_list_sort\<close> of the C library the backend is linked with: a merge sort that cuts the
  list in the middle and, when merging, takes from the first list while the comparison
  is not positive.
\<close>

fun g_list_sort_merge ::
  "('a \<Rightarrow> 'a \<Rightarrow> fault + int) \<Rightarrow> 'a list \<Rightarrow> 'a list \<Rightarrow> fault + 'a list" where
  "g_list_sort_merge compare_func [] l2 = Inr l2"
| "g_list_sort_merge compare_func (a # l1) [] = Inr (a # l1)"
| "g_list_sort_merge compare_func (a # l1) (b # l2) =
     (case compare_func a b of
        Inl e \<Rightarrow> Inl e
      | Inr cmp \<Rightarrow>
          if cmp \<le> 0 then
            (case g_list_sort_merge compare_func l1 (b # l2) of
               Inl e \<Rightarrow> Inl e | Inr r \<Rightarrow> Inr (a # r))
          else
            (case g_list_sort_merge compare_func (a # l1) l2 of
               Inl e \<Rightarrow> Inl e | Inr r \<Rightarrow> Inr (b # r)))"

function g_list_sort :: "('a \<Rightarrow> 'a \<Rightarrow> fault + int) \<Rightarrow> 'a list \<Rightarrow> fault + 'a list" where
  "g_list_sort compare_func l =
     (if length l \<le> 1 then Inr l
      else
        (case g_list_sort compare_func (take (length l div 2) l) of
           Inl e \<Rightarrow> Inl e
         | Inr l1 \<Rightarrow>
            (case g_list_sort compare_func (drop (length l div 2) l) of
               Inl e \<Rightarrow> Inl e
             | Inr l2 \<Rightarrow> g_list_sort_merge compare_func l1 l2)))"
  by pat_completeness auto
termination
  by (relation "measure (\<lambda>(c, l). length l)") auto

declare g_list_sort.simps [simp del]

definition get_keys :: "int \<Rightarrow> layer \<Rightarrow> int list \<Rightarrow> int list" where
  "get_keys key val keys = key # keys"

text \<open>The table is visited in the order of the association list.\<close>

definition g_hash_table_foreach ::
  "wlmap \<Rightarrow> (int \<Rightarrow> layer \<Rightarrow> 'a \<Rightarrow> 'a) \<Rightarrow> 'a \<Rightarrow> 'a" where
  "g_hash_table_foreach m func user_data = fold (\<lambda>(k, v). func k v) m user_data"

text \<open>The loop \<open>for (i = 0; i < data->jpeg_count; i++) init_one_jpeg(...)\<close>.\<close>

fun init_all_jpegs :: "fragment list \<Rightarrow> (fault + one_jpeg list) option" where
  "init_all_jpegs [] = Some (Inr [])"
| "init_all_jpegs (fr # frs) =
     (case init_one_jpeg fr of
        None \<Rightarrow> None
      | Some (Inl e) \<Rightarrow> Some (Inl e)
      | Some (Inr oj) \<Rightarrow>
         (case init_all_jpegs frs of
            None \<Rightarrow> None
          | Some (Inl e) \<Rightarrow> Some (Inl e)
          | Some (Inr ojs) \<Rightarrow> Some (Inr (oj # ojs))))"

text \<open>
  The loop that copies the layers into the array, one per sorted key; the key is taken
  out of the table (\<open>g_hash_table_steal\<close>) once its layer is copied.
\<close>

fun load_layers :: "wlmap \<Rightarrow> int list \<Rightarrow> fault + layer list" where
  "load_layers m [] = Inr []"
| "load_layers m (k # ks) =
     (case map_of m k of
        None \<Rightarrow> Inl OutOfBounds
      | Some l \<Rightarrow>
         (case load_layers (AList.delete k m) ks of
            Inl e \<Rightarrow> Inl e
          | Inr ls \<Rightarrow> Inr (l # ls)))"

definition openslide_add_jpeg_ops ::
  "openslide option \<Rightarrow> fragment list \<Rightarrow> (fault + openslide option) option" where
  "openslide_add_jpeg_ops osr fragments =
     (case osr of
        None \<Rightarrow> Some (Inr None)
      | Some osr0 \<Rightarrow>
          if data osr0 \<noteq> None then Some (Inl (AssertionFailed ''osr->data == NULL''))
          else
            (case init_all_jpegs fragments of
               None \<Rightarrow> None
             | Some (Inl e) \<Rightarrow> Some (Inl e)
             | Some (Inr jpegs) \<Rightarrow>
                (case create_width_to_layer_map fragments jpegs of
                   None \<Rightarrow> None
                 | Some (Inl e) \<Rightarrow> Some (Inl e)
                 | Some (Inr m) \<Rightarrow>
                    (case g_list_sort width_compare (g_hash_table_foreach m get_keys []) of
                       Inl e \<Rightarrow> Some (Inl e)
                     | Inr layer_keys \<Rightarrow>
                        (case load_layers m layer_keys of
                           Inl e \<Rightarrow> Some (Inl e)
                         | Inr ls \<Rightarrow>
                             Some (Inr (Some (osr0\<lparr>
                               layer_count := int (g_hash_table_size m),
                               data := Some \<lparr> jpeg_count = int (length fragments),
                                              all_jpegs = jpegs, layers = ls \<rparr> \<rparr>))))))))"

subsection \<open>Backend operations\<close>

text \<open>A read of \<open>data->layers[layer]\<close>.\<close>

definition layers_at :: "openslide \<Rightarrow> int \<Rightarrow> fault + layer" where
  "layers_at osr i =
     (case data osr of
        None \<Rightarrow> Inl OutOfBounds
      | Some d \<Rightarrow>
          if 0 \<le> i \<and> i < int (length (layers d)) then Inr (layers d ! nat i)
          else Inl OutOfBounds)"

definition get_dimensions :: "openslide \<Rightarrow> int \<Rightarrow> fault + int \<times> int" where
  "get_dimensions osr layer =
     (if layer \<ge> layer_count osr then Inr (0, 0)
      else
        (case layers_at osr layer of
           Inl e \<Rightarrow> Inl e
         | Inr l \<Rightarrow>
             if scale_denom l = 0 then Inl DivideByZero
             else Inr (pixel_w l sdiv scale_denom l, pixel_h l sdiv scale_denom l)))"

subsection \<open>One-JPEG reader\<close>

text \<open>
  What the decoder hands back for one call of \<open>read_from_one_jpeg\<close>: the width of
  the scaled image and the rows each call of \<open>jpeg_read_scanlines\<close> returns, in order.
  \<open>cinfo.output_scanline < cinfo.output_height\<close> holds as long as a batch of rows is
  left. A row is \<open>3 * output_width\<close> samples.
\<close>

record jpeg_output =
  out_width :: int
  out_scanlines :: "byte list list list"

type_synonym jpeg_decoder =
  "one_jpeg \<Rightarrow> int \<Rightarrow> int \<Rightarrow> int \<Rightarrow> int \<Rightarrow> int \<Rightarrow> int \<Rightarrow> jpeg_output"

text \<open>
  The destination is memory addressed in 32-bit words; \<open>dest\<close> is an address in it.
\<close>

type_synonym pixels = "int \<Rightarrow> 32 word"

definition sample_at :: "byte list \<Rightarrow> int \<Rightarrow> fault + byte" where
  "sample_at row k =
     (if 0 \<le> k \<and> k < int (length row) then Inr (row ! nat k) else Inl OutOfBounds)"

definition argb :: "byte \<Rightarrow> byte \<Rightarrow> byte \<Rightarrow> 32 word" where
  "argb r g b = 0xFF000000 OR push_bit 16 (ucast r) OR push_bit 8 (ucast g) OR ucast b"

text \<open>The loop \<open>for (i = 0; i < w && i < ((int32_t) cinfo.output_width - d_x); i++)\<close>.\<close>

function copy_row ::
  "pixels \<Rightarrow> int \<Rightarrow> byte list \<Rightarrow> int \<Rightarrow> int \<Rightarrow> int \<Rightarrow> int \<Rightarrow> fault + pixels" where
  "copy_row mem dest row d_x w ow i =
     (if i < w \<and> i < ow - d_x then
        (case sample_at row ((d_x + i) * 3 + 0) of
           Inl e \<Rightarrow> Inl e
         | Inr r \<Rightarrow>
            (case sample_at row ((d_x + i) * 3 + 1) of
               Inl e \<Rightarrow> Inl e
             | Inr g \<Rightarrow>
                (case sample_at row ((d_x + i) * 3 + 2) of
                   Inl e \<Rightarrow> Inl e
                 | Inr b \<Rightarrow>
                     copy_row (mem(dest + i := argb r g b)) dest row d_x w ow (i + 1))))
      else Inr mem)"
  by pat_completeness auto
termination
  by (relation "measure (\<lambda>(mem, dest, row, d_x, w, ow, i). nat (w - i))") auto

declare copy_row.simps [simp del]

record scan_state =
  sc_mem :: pixels
  sc_dest :: int
  rows_to_skip :: int
  rows_left :: int

text \<open>
  The inner loop \<open>while (rows_read > 0 && rows_left > 0)\<close> over the rows of one batch
  (\<open>buffer[cur_buffer]\<close> is the head of the list).
\<close>

fun copy_scanlines ::
  "int \<Rightarrow> int \<Rightarrow> int \<Rightarrow> int \<Rightarrow> scan_state \<Rightarrow> byte list list \<Rightarrow> fault + scan_state" where
  "copy_scanlines d_x w ow stride st [] = Inr st"
| "copy_scanlines d_x w ow stride st (row # rows) =
     (if rows_left st > 0 then
        (case (if rows_to_skip st = 0
               then (case copy_row (sc_mem st) (sc_dest st) row d_x w ow 0 of
                       Inl e \<Rightarrow> Inl e
                     | Inr mem \<Rightarrow> Inr (st\<lparr>sc_mem := mem\<rparr>))
               else Inr st) of
           Inl e \<Rightarrow> Inl e
         | Inr st1 \<Rightarrow>
             copy_scanlines d_x w ow stride
               (if rows_to_skip st1 > 0 then st1\<lparr>rows_to_skip := rows_to_skip st1 - 1\<rparr>
                else st1\<lparr>rows_left := rows_left st1 - 1, sc_dest := sc_dest st1 + stride\<rparr>)
               rows)
      else Inr st)"

text \<open>
  The outer loop \<open>while (cinfo.output_scanline < cinfo.output_height && rows_left > 0)\<close>.
\<close>

fun read_scanlines ::
  "int \<Rightarrow> int \<Rightarrow> int \<Rightarrow> int \<Rightarrow> scan_state \<Rightarrow> byte list list list \<Rightarrow> fault + scan_state" where
  "read_scanlines d_x w ow stride st [] = Inr st"
| "read_scanlines d_x w ow stride st (batch # batches) =
     (if rows_left st > 0 then
        (case copy_scanlines d_x w ow stride st batch of
           Inl e \<Rightarrow> Inl e
         | Inr st1 \<Rightarrow> read_scanlines d_x w ow stride st1 batches)
      else Inr st)"

text \<open>\<open>imaxdiv(a, b)\<close> followed by \<open>quot + !!rem\<close>: the integer ceiling.\<close>

definition imaxdiv_ceil :: "int \<Rightarrow> int \<Rightarrow> int" where
  "imaxdiv_ceil a b = a sdiv b + (if a smod b \<noteq> 0 then 1 else 0)"

text \<open>
  \<open>read_from_one_jpeg\<close>, in two parts. The first is the call of the decoder, which is a
  parameter: it is given the file, the window handed to the fancy source
  (\<open>topleft\<close>, \<open>width\<close>, \<open>stride\<close>), the scale and the image size the backend writes
  into \<open>cinfo\<close>.
\<close>

definition decode_window ::
  "jpeg_decoder \<Rightarrow> one_jpeg \<Rightarrow> int \<Rightarrow> int \<Rightarrow> int \<Rightarrow> int \<Rightarrow> int \<Rightarrow> jpeg_output" where
  "decode_window decoder jpeg x y sd w h =
     (let tile_y = y sdiv tile_height jpeg;
          tile_x = x sdiv tile_width jpeg;
          stride_in_tiles = width jpeg sdiv tile_width jpeg;
          img_height_in_tiles = height jpeg sdiv tile_height jpeg;
          width_in_tiles0 =
            to_int32 (imaxdiv_ceil (w * sd + x smod tile_width jpeg) (tile_width jpeg));
          height_in_tiles0 =
            to_int32 (imaxdiv_ceil (h * sd + y smod tile_height jpeg) (tile_height jpeg));
          width_in_tiles = min width_in_tiles0 (stride_in_tiles - tile_x);
          height_in_tiles = min height_in_tiles0 (img_height_in_tiles - tile_y)
      in decoder jpeg (tile_y * stride_in_tiles + tile_x) width_in_tiles
           stride_in_tiles sd
           (width_in_tiles * tile_width jpeg) (height_in_tiles * tile_height jpeg))"

text \<open>
  The second part is the rest of the function. The counter \<open>pixels_wasted\<close> is only
  written, never read, and is left out.
\<close>

definition read_from_one_jpeg ::
  "jpeg_decoder \<Rightarrow> one_jpeg \<Rightarrow> pixels \<Rightarrow> int \<Rightarrow> int \<Rightarrow> int \<Rightarrow> int \<Rightarrow> int \<Rightarrow> int \<Rightarrow> int
     \<Rightarrow> fault + pixels" where
  "read_from_one_jpeg decoder jpeg mem dest x y sd w h stride =
     (if tile_height jpeg = 0 \<or> tile_width jpeg = 0 then Inl DivideByZero
      else
        (let out = decode_window decoder jpeg x y sd w h
         in if sd = 0 then Inl DivideByZero
            else
              (let d_x = (x smod tile_width jpeg) sdiv sd;
                   d_y = (y smod tile_height jpeg) sdiv sd
               in case read_scanlines d_x w (to_int32 (out_width out)) stride
                         \<lparr> sc_mem = mem, sc_dest = dest, rows_to_skip = d_y, rows_left = h \<rparr>
                         (out_scanlines out) of
                    Inl e \<Rightarrow> Inl e
                  | Inr st \<Rightarrow> Inr (sc_mem st))))"

subsection \<open>Region router\<close>

text \<open>
  \<open>int64_t src = v / rel_downsample\<close>: \<open>v\<close> is converted to \<open>double\<close>, the quotient
  is computed in \<open>double\<close> and converted to \<open>int64_t\<close>.
\<close>

definition scale_into_jpeg_space :: "int \<Rightarrow> double \<Rightarrow> fault + int" where
  "scale_into_jpeg_space v rel_downsample =
     int64_of_double (double_div (double_of_int v) rel_downsample)"

text \<open>
  The start of a request in the source, for one axis:
  \<open>src = v / rel_downsample; src = (src / scale_denom) * scale_denom;\<close>
\<close>

definition read_region_src_start :: "layer \<Rightarrow> int \<Rightarrow> fault + int" where
  "read_region_src_start l v =
     (case scale_into_jpeg_space v (no_scale_denom_downsample l) of
        Inl e \<Rightarrow> Inl e
      | Inr src \<Rightarrow>
          if scale_denom l = 0 then Inl DivideByZero
          else Inr ((src sdiv scale_denom l) * scale_denom l))"

definition layer_jpegs_at :: "layer \<Rightarrow> int \<Rightarrow> fault + one_jpeg" where
  "layer_jpegs_at l i =
     (if 0 \<le> i \<and> i < int (length (layer_jpegs l)) then Inr (layer_jpegs l ! nat i)
      else Inl OutOfBounds)"

text \<open>The inner loop \<open>while (src_x < end_src_x)\<close>.\<close>

partial_function (option) read_region_columns ::
  "jpeg_decoder \<Rightarrow> layer \<Rightarrow> int \<Rightarrow> int \<Rightarrow> int \<Rightarrow> int \<Rightarrow> int \<Rightarrow> int \<Rightarrow> int
     \<Rightarrow> pixels \<Rightarrow> int \<Rightarrow> int \<Rightarrow> (fault + pixels) option" where
  "read_region_columns decoder l dest w file_y start_in_src_segment_y dest_h dest_y end_src_x
       mem src_x dest_x =
     (if src_x < end_src_x then
        (if image00_w l = 0 then Some (Inl DivideByZero)
         else
           (let file_x = to_int32 (src_x sdiv image00_w l);
                origin_src_segment_x = file_x * image00_w l;
                end_in_src_segment_x =
                  to_int32 (min ((file_x + 1) * image00_w l) end_src_x - origin_src_segment_x);
                start_in_src_segment_x = to_int32 (src_x - origin_src_segment_x);
                dest_w = (end_in_src_segment_x - start_in_src_segment_x) sdiv scale_denom l
            in case layer_jpegs_at l (file_y * jpegs_across l + file_x) of
                 Inl e \<Rightarrow> Some (Inl e)
               | Inr jpeg \<Rightarrow>
                  (case read_from_one_jpeg decoder jpeg mem (dest + (dest_y * w + dest_x))
                          start_in_src_segment_x start_in_src_segment_y (scale_denom l)
                          dest_w dest_h (to_int32 w) of
                     Inl e \<Rightarrow> Some (Inl e)
                   | Inr mem1 \<Rightarrow>
                       read_region_columns decoder l dest w file_y start_in_src_segment_y
                         dest_h dest_y end_src_x
                         mem1 (end_in_src_segment_x + origin_src_segment_x) (dest_x + dest_w))))
      else Some (Inr mem))"

text \<open>The outer loop \<open>while (src_y < end_src_y)\<close>.\<close>

partial_function (option) read_region_rows ::
  "jpeg_decoder \<Rightarrow> layer \<Rightarrow> int \<Rightarrow> int \<Rightarrow> int \<Rightarrow> int
     \<Rightarrow> pixels \<Rightarrow> int \<Rightarrow> int \<Rightarrow> (fault + pixels) option" where
  "read_region_rows decoder l dest x w end_src_y mem src_y dest_y =
     (if src_y < end_src_y then
        (if image00_h l = 0 then Some (Inl DivideByZero)
         else
           (let file_y = to_int32 (src_y sdiv image00_h l);
                origin_src_segment_y = file_y * image00_h l;
                end_in_src_segment_y =
                  to_int32 (min ((file_y + 1) * image00_h l) end_src_y - origin_src_segment_y);
                start_in_src_segment_y = to_int32 (src_y - origin_src_segment_y);
                dest_h = (end_in_src_segment_y - start_in_src_segment_y) sdiv scale_denom l
            in case read_region_src_start l x of
                 Inl e \<Rightarrow> Some (Inl e)
               | Inr src_x \<Rightarrow>
                  (case read_region_columns decoder l dest w file_y start_in_src_segment_y
                          dest_h dest_y (min (src_x + w * scale_denom l) (pixel_w l))
                          mem src_x 0 of
                     None \<Rightarrow> None
                   | Some (Inl e) \<Rightarrow> Some (Inl e)
                   | Some (Inr mem1) \<Rightarrow>
                       read_region_rows decoder l dest x w end_src_y
                         mem1 (end_in_src_segment_y + origin_src_segment_y) (dest_y + dest_h))))
      else Some (Inr mem))"

definition read_region ::
  "jpeg_decoder \<Rightarrow> openslide \<Rightarrow> pixels \<Rightarrow> int \<Rightarrow> int \<Rightarrow> int \<Rightarrow> int \<Rightarrow> int \<Rightarrow> int
     \<Rightarrow> (fault + pixels) option" where
  "read_region decoder osr mem dest x y layer w h =
     (case layers_at osr layer of
        Inl e \<Rightarrow> Some (Inl e)
      | Inr l \<Rightarrow>
         (case read_region_src_start l y of
            Inl e \<Rightarrow> Some (Inl e)
          | Inr src_y \<Rightarrow>
              read_region_rows decoder l dest x w
                (min (src_y + h * scale_denom l) (pixel_h l)) mem src_y 0))"

subsection \<open>Auxiliary notions for the properties\<close>

text \<open>The published width of a layer, as \<open>get_dimensions\<close> computes it.\<close>

definition published_width :: "layer \<Rightarrow> int" where
  "published_width l = pixel_w l sdiv scale_denom l"

text \<open>The insertion at the end of the loop body of \<open>generate_layers_into_map\<close>.\<close>

definition insert_layer :: "layer \<Rightarrow> wlmap \<Rightarrow> wlmap" where
  "insert_layer l m = g_hash_table_insert m (pixel_w l sdiv scale_denom l) l"

text \<open>Every key of the table is the published width of its layer, and keys are distinct.\<close>

definition wl_inv :: "wlmap \<Rightarrow> bool" where
  "wl_inv m \<longleftrightarrow> distinct (map fst m) \<and> (\<forall>(k, l) \<in> set m. k = published_width l)"

text \<open>The locals at the moment \<open>generate_layers_into_map\<close> is called.\<close>

definition cwl_flush :: "cwl_locals \<Rightarrow> fragment \<Rightarrow> one_jpeg \<Rightarrow> cwl_locals" where
  "cwl_flush s fr oj =
     (let s1 = cwl_accumulate s fr oj;
          s2 = s1\<lparr>layer_jpegs_tmp := rev (layer_jpegs_tmp s1)\<rparr>
      in if fr_z fr = 0 then s2\<lparr>layer0_w := l_pw s2\<rparr> else s2)"

text \<open>
  The successor relation on fragment coordinates and the lists in which every
  fragment follows its predecessor.
\<close>

definition zxy_succ :: "int \<times> int \<times> int \<Rightarrow> int \<times> int \<times> int \<Rightarrow> bool" where
  "zxy_succ p q =
     (case (p, q) of ((pz, px, py), (z, x, y)) \<Rightarrow>
        (z = pz + 1 \<and> x = 0 \<and> y = 0)
      \<or> (z = pz \<and> y = py + 1 \<and> x = 0)
      \<or> (z = pz \<and> y = py \<and> x = px + 1))"

definition zxy :: "fragment \<Rightarrow> int \<times> int \<times> int" where
  "zxy fr = (fr_z fr, fr_x fr, fr_y fr)"

fun zxy_chain :: "int \<times> int \<times> int \<Rightarrow> (int \<times> int \<times> int) list \<Rightarrow> bool" where
  "zxy_chain p [] = True"
| "zxy_chain p (q # qs) = (zxy_succ p q \<and> zxy_chain q qs)"

text \<open>
  A byte of a fresh read is the second byte of a restart marker when it is one of
  \<open>D0 .. D7\<close> and the byte before it, in the same read, is \<open>FF\<close>.
\<close>

definition is_restart_at :: "byte list \<Rightarrow> nat \<Rightarrow> bool" where
  "is_restart_at bs i \<longleftrightarrow>
     0 < i \<and> i < length bs \<and> bs ! (i - 1) = 0xFF \<and> 0xD0 \<le> bs ! i \<and> bs ! i < 0xD8"

definition restarts_before :: "byte list \<Rightarrow> nat \<Rightarrow> nat" where
  "restarts_before bs i = length (filter (is_restart_at bs) [0..<i])"

text \<open>
  The same for a list that continues a read: \<open>last_was_ff\<close> tells whether the byte
  before the list was \<open>FF\<close>.
\<close>

definition restart_from :: "bool \<Rightarrow> byte list \<Rightarrow> nat \<Rightarrow> bool" where
  "restart_from last_was_ff bs i \<longleftrightarrow>
     i < length bs \<and> (if i = 0 then last_was_ff else bs ! (i - 1) = 0xFF)
     \<and> 0xD0 \<le> bs ! i \<and> bs ! i < 0xD8"

text \<open>The step of the counter of restart markers: \<open>(next_restart_marker + 1) % 8\<close>.\<close>

definition next_marker :: "byte \<Rightarrow> byte" where
  "next_marker c = (c + 1) mod 8"

text \<open>
  The marker scan of \<open>compute_optimization\<close> as a function of the bytes that are still
  to come, with \<open>pos\<close> the file offset of the first of them. When the bytes are used
  up the source supplies \<open>FF D9\<close>, which ends the scan.
\<close>

fun scan_restart_markers ::
  "byte list \<Rightarrow> int \<Rightarrow> int \<Rightarrow> int list \<Rightarrow> bool \<Rightarrow> int \<Rightarrow> fault + int list" where
  "scan_restart_markers [] pos count starts last_was_ff marker = Inr starts"
| "scan_restart_markers (b # bs) pos count starts last_was_ff marker =
     (if marker < count then
        (if last_was_ff then
           (if b = JPEG_EOI then Inr starts
            else if b \<ge> 0xD0 \<and> b < 0xD8 then
              (if 0 \<le> 1 + marker \<and> 1 + marker < int (length starts) then
                 scan_restart_markers bs (pos + 1) count
                   (starts[nat (1 + marker) := pos + 1]) (b = 0xFF) (marker + 1)
               else Inl OutOfBounds)
            else scan_restart_markers bs (pos + 1) count starts (b = 0xFF) marker)
         else scan_restart_markers bs (pos + 1) count starts (b = 0xFF) marker)
      else Inr starts)"

text \<open>
  The number of restart markers in a stream before its first end-of-image marker.
\<close>

fun count_restart_markers :: "byte list \<Rightarrow> bool \<Rightarrow> nat" where
  "count_restart_markers [] last_was_ff = 0"
| "count_restart_markers (b # bs) last_was_ff =
     (if last_was_ff \<and> b = JPEG_EOI then 0
      else (if last_was_ff \<and> b \<ge> 0xD0 \<and> b < 0xD8 then 1 else 0)
           + count_restart_markers bs (b = 0xFF))"

text \<open>
  The bytes a source without a table of positions still has to deliver: the rest of
  the buffer and the rest of the file. Its invariant: the whole file is one segment,
  the buffer accounts are consistent, and nothing is buffered before the first fill.
\<close>

definition src_rem :: "my_src_mgr \<Rightarrow> byte list" where
  "src_rem src =
     take (bytes_in_buffer src) (drop (next_input_byte src) (buffer src))
     @ drop (nat (file_pos src)) (infile src)"

definition nopos_inv :: "my_src_mgr \<Rightarrow> bool" where
  "nopos_inv src \<longleftrightarrow>
     start_positions_count src = 0 \<and> stop_position src = INT64_MAX
     \<and> 0 \<le> file_pos src \<and> file_pos src \<le> int (length (infile src))
     \<and> int (length (infile src)) + INPUT_BUF_SIZE \<le> INT64_MAX
     \<and> next_input_byte src + bytes_in_buffer src = length (buffer src)
     \<and> (start_of_file src \<longrightarrow> bytes_in_buffer src = 0)"



text \<open>
  The last row of a window of \<open>h\<close> rows of tiles has been read to its end: the file is
  at \<open>stop_position\<close> and \<open>next_start_offset\<close> is the first tile of row \<open>h - 1\<close> of
  the window. The next fill jumps one more row down.
\<close>

definition window_exhausted :: "int \<Rightarrow> my_src_mgr \<Rightarrow> bool" where
  "window_exhausted h src \<longleftrightarrow>
     file_pos src = stop_position src
     \<and> next_start_offset src = topleft src + (h - 1) * src_stride src"





subsection \<open>Example data\<close>

text \<open>
  A file of two tiles of 8 by 8 pixels: two header bytes, two restart intervals with one
  restart marker between them, and the end-of-image marker.
\<close>

definition example_file :: jpeg_file where
  "example_file =
     \<lparr> file_bytes = [0xFF, 0xD8, 0x11, 0x22, 0xFF, 0xD0, 0x33, 0xFF, 0xD9],
       MCUs_per_row = 2, MCU_rows_in_scan = 1, restart_interval = 1,
       output_width = 16, output_height = 8, data_start = 2, com_marker = None \<rparr>"

definition example_jpeg :: one_jpeg where
  "example_jpeg =
     \<lparr> jpeg_f = example_file, mcu_starts_count = 2, mcu_starts = [2, 6],
       tile_width = 8, tile_height = 8, width = 16, height = 8, comment = None \<rparr>"

definition example_fragment :: "int \<Rightarrow> fragment" where
  "example_fragment z = \<lparr> fr_f = example_file, fr_x = 0, fr_y = 0, fr_z = z \<rparr>"

definition example_layer :: "int \<Rightarrow> int \<Rightarrow> layer" where
  "example_layer l0w sd =
     \<lparr> layer_jpegs = [example_jpeg], pixel_w = 16, pixel_h = 8,
       jpegs_across = 1, jpegs_down = 1, image00_w = 16, image00_h = 8,
       scale_denom = sd,
       no_scale_denom_downsample = double_div (double_of_int l0w) (double_of_int 16) \<rparr>"

definition example_osr :: openslide where
  "example_osr = \<lparr> layer_count = 0, data = None \<rparr>"

definition example_map :: "int \<Rightarrow> wlmap" where
  "example_map l0w = map (\<lambda>sd. (16 sdiv sd, example_layer l0w sd)) [1, 2, 4, 8]"

definition example_result :: "int \<Rightarrow> openslide" where
  "example_result l0w =
     \<lparr> layer_count = 4,
       data = Some \<lparr> jpeg_count = 1, all_jpegs = [example_jpeg],
                     layers = map (example_layer l0w) [1, 2, 4, 8] \<rparr> \<rparr>"

text \<open>
  A file of three MCUs with a restart interval of two: two intervals, hence one restart
  marker, while \<open>3 / 2 = 1\<close> entry is allocated.
\<close>

definition overrun_file :: jpeg_file where
  "overrun_file =
     \<lparr> file_bytes = [0xFF, 0xD8, 0x11, 0xFF, 0xD0, 0x22, 0xFF, 0xD9],
       MCUs_per_row = 3, MCU_rows_in_scan = 1, restart_interval = 2,
       output_width = 24, output_height = 8, data_start = 2, com_marker = None \<rparr>"


text \<open>
  A source on the example file with its table of positions, for a window of one tile:
  the header has been read, the file is at the end of the header, and three restart
  markers have been passed to the decoder before.
\<close>

definition example_src :: my_src_mgr where
  "example_src =
     \<lparr> infile = file_bytes example_file, file_pos = 2, buffer = [0xFF, 0xD8],
       next_input_byte = 2, bytes_in_buffer = 0, start_of_file = False,
       next_restart_marker = 3, next_start_offset = - 2,
       next_start_position = 0, stop_position = 2,
       start_positions = [2, 6], start_positions_count = 2,
       topleft = 0, src_width = 1, src_stride = 2 \<rparr>"


text \<open>
  An image of 24 by 16 pixels in MCUs of 8 by 8 with a restart interval of two: six
  MCUs in three intervals, two restart markers.
\<close>

definition odd_interval_file :: jpeg_file where
  "odd_interval_file =
     \<lparr> file_bytes = [0xFF, 0xD8, 0x11, 0xFF, 0xD0, 0x22, 0xFF, 0xD1, 0x33, 0xFF, 0xD9],
       MCUs_per_row = 3, MCU_rows_in_scan = 2, restart_interval = 2,
       output_width = 24, output_height = 16, data_start = 2, com_marker = None \<rparr>"

definition odd_interval_jpeg :: one_jpeg where
  "odd_interval_jpeg =
     \<lparr> jpeg_f = odd_interval_file, mcu_starts_count = 3, mcu_starts = [2, 5, 8],
       tile_width = 24, tile_height = 8, width = 24, height = 16, comment = None \<rparr>"





section \<open>Properties of the pyramid builder\<close>


lemma copy_layer_jpegs_take:
  "n \<le> length jj \<Longrightarrow> copy_layer_jpegs jj n = Inr (take n jj)"
  by (induction jj n rule: copy_layer_jpegs.induct) auto

lemma copy_layer_jpegs_fail:
  "length jj < n \<Longrightarrow> copy_layer_jpegs jj n = Inl (AssertionFailed ''jj'')"
  by (induction jj n rule: copy_layer_jpegs.induct) auto

lemma generate_layers_into_map_ok:
  assumes "copy_layer_jpegs jpegs (nat (ja * jd)) = Inr lj"
  shows "generate_layers_into_map jpegs ja jd pw ph i00w i00h l0w m =
     Some (Inr (fold insert_layer
        (map (\<lambda>sd. \<lparr> layer_jpegs = lj, pixel_w = pw, pixel_h = ph,
                      jpegs_across = ja, jpegs_down = jd,
                      image00_w = i00w, image00_h = i00h,
                      scale_denom = sd,
                      no_scale_denom_downsample =
                        double_div (double_of_int l0w) (double_of_int pw) \<rparr>) [1, 2, 4, 8]) m))"
  unfolding generate_layers_into_map_def insert_layer_def
  apply (subst generate_layers_while.simps)
  apply (simp add: generate_layer_def assms Let_def)
  apply (subst generate_layers_while.simps)
  apply (simp add: generate_layer_def assms Let_def)
  apply (subst generate_layers_while.simps)
  apply (simp add: generate_layer_def assms Let_def)
  apply (subst generate_layers_while.simps)
  apply (simp add: generate_layer_def assms Let_def)
  apply (subst generate_layers_while.simps)
  apply (simp add: generate_layer_def assms Let_def)
  done

lemma generate_layers_into_map_fail:
  assumes "copy_layer_jpegs jpegs (nat (ja * jd)) = Inl e"
  shows "generate_layers_into_map jpegs ja jd pw ph i00w i00h l0w m = Some (Inl e)"
  unfolding generate_layers_into_map_def
  apply (subst generate_layers_while.simps)
  apply (simp add: generate_layer_def assms Let_def)
  done

lemma wl_inv_empty: "wl_inv []"
  by (simp add: wl_inv_def)

lemma set_update_cases:
  "(a, b) \<in> set (AList.update k v al) \<Longrightarrow> (a, b) = (k, v) \<or> (a, b) \<in> set al"
  by (induction al) (auto split: if_splits)

lemma wl_inv_insert_layer: "wl_inv m \<Longrightarrow> wl_inv (insert_layer l m)"
  unfolding wl_inv_def insert_layer_def g_hash_table_insert_def published_width_def
  by (auto simp: distinct_update dest!: set_update_cases)

lemma wl_inv_fold: "wl_inv m \<Longrightarrow> wl_inv (fold insert_layer ls m)"
  by (induction ls arbitrary: m) (auto simp: wl_inv_insert_layer)

lemma generate_layers_into_map_inv:
  assumes "generate_layers_into_map jpegs ja jd pw ph i00w i00h l0w m = Some (Inr m')"
    and "wl_inv m"
  shows "wl_inv m'"
proof (cases "copy_layer_jpegs jpegs (nat (ja * jd))")
  case (Inl e)
  with assms(1) show ?thesis
    by (simp add: generate_layers_into_map_fail)
next
  case (Inr lj)
  with assms show ?thesis
    by (auto simp: generate_layers_into_map_ok wl_inv_insert_layer)
qed

lemma generate_layers_into_map_total:
  "generate_layers_into_map jpegs ja jd pw ph i00w i00h l0w m \<noteq> None"
  by (cases "copy_layer_jpegs jpegs (nat (ja * jd))")
     (simp_all add: generate_layers_into_map_fail generate_layers_into_map_ok)

lemma width_to_layer_map_accumulate:
  "width_to_layer_map (cwl_accumulate s fr oj) = width_to_layer_map s"
  by (simp add: cwl_accumulate_def Let_def)

declare is_zxy_successor.simps [simp del]

lemma cwl_loop_Cons:
  "cwl_loop s ((fr, oj) # rest) =
     (if \<not> is_zxy_successor (prev_z s) (prev_x s) (prev_y s) (fr_z fr) (fr_x fr) (fr_y fr)
      then Some (Inl (AssertionFailed ''is_zxy_successor''))
      else if rest = [] \<or> fr_z (fst (hd rest)) \<noteq> fr_z fr then
        (case generate_layers_into_map (layer_jpegs_tmp (cwl_flush s fr oj))
                (fr_x fr + 1) (fr_y fr + 1)
                (l_pw (cwl_flush s fr oj)) (l_ph (cwl_flush s fr oj))
                (img00_w (cwl_flush s fr oj)) (img00_h (cwl_flush s fr oj))
                (layer0_w (cwl_flush s fr oj))
                (width_to_layer_map (cwl_flush s fr oj)) of
           None \<Rightarrow> None
         | Some (Inl e) \<Rightarrow> Some (Inl e)
         | Some (Inr m) \<Rightarrow>
             cwl_loop ((cwl_flush s fr oj)\<lparr>width_to_layer_map := m, l_pw := 0, l_ph := 0,
                               img00_w := 0, img00_h := 0, layer_jpegs_tmp := [],
                               prev_z := fr_z fr, prev_x := fr_x fr, prev_y := fr_y fr\<rparr>) rest)
      else cwl_loop ((cwl_accumulate s fr oj)\<lparr>prev_z := fr_z fr, prev_x := fr_x fr,
                       prev_y := fr_y fr\<rparr>) rest)"
  by (simp only: cwl_loop.simps Let_def cwl_flush_def)

lemma width_to_layer_map_flush:
  "width_to_layer_map (cwl_flush s fr oj) = width_to_layer_map s"
  by (simp add: cwl_flush_def Let_def width_to_layer_map_accumulate)

lemma cwl_loop_inv:
  "cwl_loop s frs = Some (Inr m) \<Longrightarrow> wl_inv (width_to_layer_map s) \<Longrightarrow> wl_inv m"
proof (induction s frs rule: cwl_loop.induct)
  case (1 s)
  then show ?case by simp
next
  case (2 s fr oj rest)
  let ?s3 = "cwl_flush s fr oj"
  have succ: "\<not> \<not> is_zxy_successor (prev_z s) (prev_x s) (prev_y s) (fr_z fr) (fr_x fr) (fr_y fr)"
    using "2.prems"(1) unfolding cwl_loop_Cons by (simp split: if_splits)
  show ?case
  proof (cases "rest = [] \<or> fr_z (fst (hd rest)) \<noteq> fr_z fr")
    case True
    from "2.prems"(1) obtain m1 where
      gen: "generate_layers_into_map (layer_jpegs_tmp ?s3) (fr_x fr + 1) (fr_y fr + 1)
              (l_pw ?s3) (l_ph ?s3) (img00_w ?s3) (img00_h ?s3) (layer0_w ?s3)
              (width_to_layer_map ?s3) = Some (Inr m1)" and
      loop: "cwl_loop (?s3\<lparr>width_to_layer_map := m1, l_pw := 0, l_ph := 0,
                               img00_w := 0, img00_h := 0, layer_jpegs_tmp := [],
                               prev_z := fr_z fr, prev_x := fr_x fr, prev_y := fr_y fr\<rparr>) rest
             = Some (Inr m)"
      unfolding cwl_loop_Cons using succ True
      by (simp split: option.splits sum.splits)
    have inv1: "wl_inv m1"
      using generate_layers_into_map_inv [OF gen] "2.prems"(2)
      by (simp add: width_to_layer_map_flush)
    have "wl_inv m"
      using "2.IH"(1) [OF succ refl True refl refl gen [unfolded cwl_flush_def Let_def] refl
          loop [unfolded cwl_flush_def Let_def]] inv1
      by simp
    then show ?thesis .
  next
    case False
    from "2.prems"(1) have
      loop: "cwl_loop ((cwl_accumulate s fr oj)\<lparr>prev_z := fr_z fr, prev_x := fr_x fr,
                prev_y := fr_y fr\<rparr>) rest = Some (Inr m)"
      unfolding cwl_loop_Cons using succ False by simp
    from "2.IH"(2) [OF succ refl False loop] "2.prems"(2)
    show ?thesis by (simp add: width_to_layer_map_accumulate)
  qed
qed

lemma cwl_loop_total: "cwl_loop s frs \<noteq> None"
proof (induction s frs rule: cwl_loop.induct)
  case (1 s)
  then show ?case by simp
next
  case (2 s fr oj rest)
  let ?s3 = "cwl_flush s fr oj"
  show ?case
  proof (cases "is_zxy_successor (prev_z s) (prev_x s) (prev_y s) (fr_z fr) (fr_x fr) (fr_y fr)")
    case False
    then show ?thesis unfolding cwl_loop_Cons by simp
  next
    case succ: True
    then have succ': "\<not> \<not> is_zxy_successor (prev_z s) (prev_x s) (prev_y s) (fr_z fr) (fr_x fr) (fr_y fr)"
      by simp
    show ?thesis
    proof (cases "rest = [] \<or> fr_z (fst (hd rest)) \<noteq> fr_z fr")
      case True
      show ?thesis
      proof (cases "generate_layers_into_map (layer_jpegs_tmp ?s3) (fr_x fr + 1) (fr_y fr + 1)
              (l_pw ?s3) (l_ph ?s3) (img00_w ?s3) (img00_h ?s3) (layer0_w ?s3)
              (width_to_layer_map ?s3)")
        case None
        then show ?thesis by (simp add: generate_layers_into_map_total)
      next
        case (Some r)
        show ?thesis
        proof (cases r)
          case (Inl e)
          with Some succ True show ?thesis unfolding cwl_loop_Cons by simp
        next
          case (Inr m1)
          have "cwl_loop (?s3\<lparr>width_to_layer_map := m1, l_pw := 0, l_ph := 0,
                               img00_w := 0, img00_h := 0, layer_jpegs_tmp := [],
                               prev_z := fr_z fr, prev_x := fr_x fr, prev_y := fr_y fr\<rparr>) rest
                \<noteq> None"
            using "2.IH"(1) [OF succ' refl True refl refl
                Some [unfolded Inr cwl_flush_def Let_def] refl]
            unfolding cwl_flush_def Let_def .
          with Some Inr succ True show ?thesis unfolding cwl_loop_Cons by simp
        qed
      qed
    next
      case False
      from "2.IH"(2) [OF succ' refl False] succ False
      show ?thesis unfolding cwl_loop_Cons by simp
    qed
  qed
qed

lemma create_width_to_layer_map_inv:
  "create_width_to_layer_map fragments jpegs = Some (Inr m) \<Longrightarrow> wl_inv m"
  unfolding create_width_to_layer_map_def
  by (erule cwl_loop_inv) (simp add: cwl_init_def wl_inv_empty)

lemma load_layers_published:
  "load_layers m ks = Inr ls \<Longrightarrow> wl_inv m \<Longrightarrow> map published_width ls = ks"
proof (induction ks arbitrary: m ls)
  case Nil
  then show ?case by simp
next
  case (Cons k ks)
  from Cons.prems obtain l ls' where
    lk: "map_of m k = Some l" and
    rest: "load_layers (AList.delete k m) ks = Inr ls'" and
    ls: "ls = l # ls'"
    by (auto split: option.splits sum.splits)
  from lk have "(k, l) \<in> set m" by (rule map_of_SomeD)
  with Cons.prems(2) have "k = published_width l"
    by (auto simp: wl_inv_def)
  moreover have "wl_inv (AList.delete k m)"
    using Cons.prems(2) by (auto simp: wl_inv_def distinct_delete) (auto simp: AList.delete_eq)
  ultimately show ?case using Cons.IH [OF rest] ls by simp
qed

subsection \<open>Sorting the keys\<close>




lemma width_compare_Inr:
  "width_compare a b = Inr c \<Longrightarrow> (c \<le> 0 \<longleftrightarrow> b \<le> a)"
  by (auto simp: width_compare_def split: if_splits)

lemma g_list_sort_merge_sorted:
  "g_list_sort_merge cmp l1 l2 = Inr r \<Longrightarrow>
   (\<forall>a b c. cmp a b = Inr c \<longrightarrow> (c \<le> 0 \<longleftrightarrow> b \<le> (a::int))) \<Longrightarrow>
   sorted_wrt (\<ge>) l1 \<Longrightarrow> sorted_wrt (\<ge>) l2 \<Longrightarrow>
   sorted_wrt (\<ge>) r \<and> set r = set l1 \<union> set l2 \<and> length r = length l1 + length l2"
proof (induction cmp l1 l2 arbitrary: r rule: g_list_sort_merge.induct)
  case (1 compare_func l2)
  then show ?case by simp
next
  case (2 compare_func a l1)
  then show ?case by auto
next
  case (3 compare_func a l1 b l2)
  from "3.prems"(1) obtain c where c: "compare_func a b = Inr c"
    by (auto split: sum.splits)
  show ?case
  proof (cases "c \<le> 0")
    case True
    with "3.prems"(1) c obtain r' where
      m: "g_list_sort_merge compare_func l1 (b # l2) = Inr r'" and r: "r = a # r'"
      by (auto split: sum.splits)
    from "3.prems"(3) have s1: "sorted_wrt (\<ge>) l1" by simp
    from "3.IH"(1) [OF c True m "3.prems"(2) s1 "3.prems"(4)]
    have ih: "sorted_wrt (\<ge>) r'" "set r' = set l1 \<union> set (b # l2)"
      "length r' = length l1 + length (b # l2)" by auto
    have ba: "b \<le> a" using "3.prems"(2) c True by blast
    have "\<forall>x \<in> set r'. x \<le> a"
      using ih(2) "3.prems"(3,4) ba by auto
    then show ?thesis using ih r by auto
  next
    case False
    with "3.prems"(1) c obtain r' where
      m: "g_list_sort_merge compare_func (a # l1) l2 = Inr r'" and r: "r = b # r'"
      by (auto split: sum.splits)
    from "3.prems"(4) have s2: "sorted_wrt (\<ge>) l2" by simp
    from "3.IH"(2) [OF c False m "3.prems"(2,3) s2]
    have ih: "sorted_wrt (\<ge>) r'" "set r' = set (a # l1) \<union> set l2"
      "length r' = length (a # l1) + length l2" by auto
    have ab: "a \<le> b" using "3.prems"(2) c False by (meson linear)
    have "\<forall>x \<in> set r'. x \<le> b"
      using ih(2) "3.prems"(3,4) ab by auto
    then show ?thesis using ih r by auto
  qed
qed

lemma g_list_sort_sorted:
  "g_list_sort width_compare l = Inr r \<Longrightarrow>
   sorted_wrt (\<ge>) r \<and> set r = set l \<and> length r = length l"
proof (induction "length l" arbitrary: l r rule: less_induct)
  case less
  show ?case
  proof (cases "length l \<le> 1")
    case True
    with less.prems have "r = l" by (simp add: g_list_sort.simps)
    moreover from True have "sorted_wrt (\<ge>) l"
      by (cases l) (auto simp: le_Suc_eq)
    ultimately show ?thesis by simp
  next
    case False
    let ?n = "length l div 2"
    from less.prems False obtain l1 l2 where
      s1: "g_list_sort width_compare (take ?n l) = Inr l1" and
      s2: "g_list_sort width_compare (drop ?n l) = Inr l2" and
      mg: "g_list_sort_merge width_compare l1 l2 = Inr r"
      by (subst (asm) g_list_sort.simps) (auto split: sum.splits)
    have "length (take ?n l) < length l" "length (drop ?n l) < length l"
      using False by auto
    from less.hyps [OF this(1) s1] less.hyps [OF this(2) s2]
    have h: "sorted_wrt (\<ge>) l1" "set l1 = set (take ?n l)" "length l1 = length (take ?n l)"
      "sorted_wrt (\<ge>) l2" "set l2 = set (drop ?n l)" "length l2 = length (drop ?n l)"
      by auto
    have cmp: "\<forall>a b c. width_compare a b = Inr c \<longrightarrow> (c \<le> 0 \<longleftrightarrow> b \<le> a)"
      using width_compare_Inr by blast
    from g_list_sort_merge_sorted [OF mg cmp h(1) h(4)]
    have m: "sorted_wrt (\<ge>) r" "set r = set l1 \<union> set l2" "length r = length l1 + length l2"
      by auto
    have "set (take ?n l) \<union> set (drop ?n l) = set l"
      by (metis append_take_drop_id set_append)
    with m h show ?thesis by auto
  qed
qed


section \<open>The index pass reads the file in order\<close>


lemma fill_nopos:
  assumes inv: "nopos_inv src" and lt: "file_pos src < int (length (infile src))"
  shows "fill_input_buffer src =
     Inr (src\<lparr>file_pos := file_pos src
                  + int (length (take 4096 (drop (nat (file_pos src)) (infile src)))),
               buffer := take 4096 (drop (nat (file_pos src)) (infile src)),
               next_input_byte := 0,
               bytes_in_buffer := length (take 4096 (drop (nat (file_pos src)) (infile src))),
               start_of_file := False\<rparr>)"
proof -
  from inv have c: "start_positions_count src = 0" and st: "stop_position src = INT64_MAX"
    and p0: "0 \<le> file_pos src" and len: "int (length (infile src)) + 4096 \<le> INT64_MAX"
    by (simp_all add: nopos_inv_def INPUT_BUF_SIZE_def)
  have m: "MIN_size (INT64_MAX - file_pos src) INPUT_BUF_SIZE = 4096"
    using p0 lt len by (simp add: MIN_size_def INPUT_BUF_SIZE_def INT64_MAX_def)
  have seg: "fill_segment src = Inr (src, 4096)"
    using p0 lt len st m by (simp add: fill_segment_def Let_def INT64_MAX_def)
  have ne: "take 4096 (drop (nat (file_pos src)) (infile src)) \<noteq> []"
    using p0 lt by simp
  show ?thesis
    using ne
    by (simp add: fill_input_buffer_def fill_rewrite_markers_def c seg fill_buffer_def
        fread_def Let_def)
qed

lemma fill_nopos_eof:
  assumes inv: "nopos_inv src" and eq: "file_pos src = int (length (infile src))"
    and sof: "\<not> start_of_file src"
  shows "fill_input_buffer src =
     Inr (src\<lparr>buffer := [0xFF, JPEG_EOI], next_input_byte := 0,
               bytes_in_buffer := 2, start_of_file := False\<rparr>)"
proof -
  from inv have c: "start_positions_count src = 0" and st: "stop_position src = INT64_MAX"
    and p0: "0 \<le> file_pos src" and len: "int (length (infile src)) + 4096 \<le> INT64_MAX"
    by (simp_all add: nopos_inv_def INPUT_BUF_SIZE_def)
  have m: "MIN_size (INT64_MAX - file_pos src) INPUT_BUF_SIZE = 4096"
    using p0 eq len by (simp add: MIN_size_def INPUT_BUF_SIZE_def INT64_MAX_def)
  have seg: "fill_segment src = Inr (src, 4096)"
    using p0 eq len st m by (simp add: fill_segment_def Let_def INT64_MAX_def)
  show ?thesis
    using eq sof
    by (simp add: fill_input_buffer_def fill_rewrite_markers_def c seg fill_buffer_def
        fread_def Let_def)
qed

lemma read_source_byte_rem:
  assumes inv: "nopos_inv src" and rem: "src_rem src = b # bs"
  shows "\<exists>src'. read_source_byte src = Inr (b, src') \<and> nopos_inv src'
           \<and> src_rem src' = bs \<and> \<not> start_of_file src'
           \<and> infile src' = infile src
           \<and> openslide_jpeg_fancy_src_get_filepos src'
               = openslide_jpeg_fancy_src_get_filepos src + 1"
proof (cases "bytes_in_buffer src = 0")
  case True
  define fresh where "fresh = take 4096 (drop (nat (file_pos src)) (infile src))"
  define fr where "fr = take 4095 bs"
  from inv have p0: "0 \<le> file_pos src" and ple: "file_pos src \<le> int (length (infile src))"
    by (simp_all add: nopos_inv_def)
  from rem True have d: "drop (nat (file_pos src)) (infile src) = b # bs"
    by (simp add: src_rem_def)
  then have lt: "file_pos src < int (length (infile src))"
    using p0 by (cases "nat (file_pos src) < length (infile src)") auto
  have fresh: "fresh = b # fr"
    using d by (simp add: fresh_def fr_def take_Cons')
  have dd: "drop (nat (file_pos src + int (length fresh))) (infile src) = drop 4095 bs"
  proof -
    have "nat (file_pos src + int (length fresh)) = length fresh + nat (file_pos src)"
      using p0 by simp
    then have "drop (nat (file_pos src + int (length fresh))) (infile src)
        = drop (length fresh) (b # bs)"
      by (simp only: drop_drop [symmetric] d)
    also have "\<dots> = drop 4095 bs"
      by (simp add: fresh fr_def min_def)
    finally show ?thesis .
  qed
  have len: "file_pos src + int (length fresh) \<le> int (length (infile src))"
    using p0 lt by (simp add: fresh_def)
  have app: "fr @ drop 4095 bs = bs"
    by (simp add: fr_def)
  have fill: "fill_input_buffer src =
     Inr (src\<lparr>file_pos := file_pos src + int (length fresh), buffer := fresh,
               next_input_byte := 0, bytes_in_buffer := length fresh,
               start_of_file := False\<rparr>)"
    using fill_nopos [OF inv lt] by (simp add: fresh_def)
  show ?thesis
    unfolding read_source_byte_def
    using True inv dd len app p0
    by (simp add: fill fresh nopos_inv_def src_rem_def openslide_jpeg_fancy_src_get_filepos_def)
next
  case False
  from inv have acc: "next_input_byte src + bytes_in_buffer src = length (buffer src)"
    and sof: "start_of_file src \<longrightarrow> bytes_in_buffer src = 0"
    by (simp_all add: nopos_inv_def)
  obtain n where n: "bytes_in_buffer src = Suc n"
    using False by (cases "bytes_in_buffer src") auto
  have lt: "next_input_byte src < length (buffer src)"
    using acc n by simp
  have hd: "buffer src ! next_input_byte src = b"
    and tl: "take n (drop (Suc (next_input_byte src)) (buffer src))
              @ drop (nat (file_pos src)) (infile src) = bs"
    using rem lt unfolding src_rem_def n
    by (simp_all add: Cons_nth_drop_Suc [symmetric])
  show ?thesis
    unfolding read_source_byte_def
    using False lt hd tl inv n sof
    by (simp add: nopos_inv_def src_rem_def openslide_jpeg_fancy_src_get_filepos_def)
qed

lemma read_source_byte_eof:
  assumes inv: "nopos_inv src" and rem: "src_rem src = []" and sof: "\<not> start_of_file src"
  shows "\<exists>src' src''. read_source_byte src = Inr (0xFF, src')
           \<and> read_source_byte src' = Inr (JPEG_EOI, src'')"
proof -
  from inv have p0: "0 \<le> file_pos src" and ple: "file_pos src \<le> int (length (infile src))"
    and acc: "next_input_byte src + bytes_in_buffer src = length (buffer src)"
    by (simp_all add: nopos_inv_def)
  from rem acc have b0: "bytes_in_buffer src = 0"
    by (cases "bytes_in_buffer src") (auto simp: src_rem_def)
  from rem have "drop (nat (file_pos src)) (infile src) = []"
    by (simp add: src_rem_def)
  with ple p0 have eq: "file_pos src = int (length (infile src))"
    by simp
  show ?thesis
    unfolding read_source_byte_def
    by (simp add: b0 fill_nopos_eof [OF inv eq sof])
qed

lemma find_restart_markers_scan:
  assumes "nopos_inv src" and "\<not> start_of_file src \<or> src_rem src \<noteq> []"
  shows "find_restart_markers src count starts last_was_ff marker =
     Some (scan_restart_markers (src_rem src) (openslide_jpeg_fancy_src_get_filepos src)
             count starts last_was_ff marker)"
  using assms
proof (induction "src_rem src" arbitrary: src starts last_was_ff marker)
  case Nil
  then have rem: "src_rem src = []" and sof: "\<not> start_of_file src" by simp_all
  from read_source_byte_eof [OF Nil.prems(1) rem sof] obtain src' src'' where
    r1: "read_source_byte src = Inr (0xFF, src')" and
    r2: "read_source_byte src' = Inr (JPEG_EOI, src'')" by blast
  show ?case
  proof (cases "marker < count")
    case True
    have "find_restart_markers src count starts last_was_ff marker =
          find_restart_markers src' count starts True marker"
      by (subst find_restart_markers.simps) (simp add: True r1 JPEG_EOI_def)
    also have "\<dots> = Some (Inr starts)"
      by (subst find_restart_markers.simps) (simp add: True r2)
    finally show ?thesis by (simp add: rem)
  next
    case False
    then show ?thesis
      by (subst find_restart_markers.simps) (simp add: rem)
  qed
next
  case (Cons b bs)
  from Cons.hyps(2) have rem: "src_rem src = b # bs" by simp
  from read_source_byte_rem [OF Cons.prems(1) rem] obtain src' where
    r: "read_source_byte src = Inr (b, src')" and inv': "nopos_inv src'" and
    rem': "src_rem src' = bs" and sof': "\<not> start_of_file src'" and
    pos': "openslide_jpeg_fancy_src_get_filepos src'
             = openslide_jpeg_fancy_src_get_filepos src + 1"
    by blast
  have ih: "find_restart_markers src' count st lf mk =
      Some (scan_restart_markers bs (openslide_jpeg_fancy_src_get_filepos src + 1)
              count st lf mk)" for st lf mk
    using Cons.hyps(1) [OF rem' [symmetric] inv'] sof' rem' pos' by simp
  show ?case
    by (subst find_restart_markers.simps) (simp add: rem r ih pos')
qed

lemma jpeg_consume_rem:
  "nopos_inv src \<Longrightarrow> n \<le> length (src_rem src) \<Longrightarrow>
   \<exists>src'. jpeg_consume n src = Inr src' \<and> nopos_inv src'
      \<and> src_rem src' = drop n (src_rem src)
      \<and> (0 < n \<longrightarrow> \<not> start_of_file src')
      \<and> openslide_jpeg_fancy_src_get_filepos src'
          = openslide_jpeg_fancy_src_get_filepos src + int n"
proof (induction n arbitrary: src)
  case 0
  then show ?case by simp
next
  case (Suc n)
  from Suc.prems(2) obtain b bs where rem: "src_rem src = b # bs"
    by (cases "src_rem src") auto
  from read_source_byte_rem [OF Suc.prems(1) rem] obtain src1 where
    r: "read_source_byte src = Inr (b, src1)" and inv1: "nopos_inv src1" and
    rem1: "src_rem src1 = bs" and sof1: "\<not> start_of_file src1" and
    pos1: "openslide_jpeg_fancy_src_get_filepos src1
             = openslide_jpeg_fancy_src_get_filepos src + 1"
    by blast
  from Suc.prems(2) rem rem1 have "n \<le> length (src_rem src1)" by simp
  from Suc.IH [OF inv1 this] obtain src' where
    c: "jpeg_consume n src1 = Inr src'" and inv': "nopos_inv src'" and
    rem': "src_rem src' = drop n (src_rem src1)" and
    pos': "openslide_jpeg_fancy_src_get_filepos src'
             = openslide_jpeg_fancy_src_get_filepos src1 + int n" and
    sof': "0 < n \<longrightarrow> \<not> start_of_file src'"
    by blast
  have sof'': "\<not> start_of_file src'"
  proof (cases n)
    case 0
    with c sof1 show ?thesis by simp
  next
    case (Suc k)
    with sof' show ?thesis by simp
  qed
  show ?case
    using r c inv' rem' rem rem1 pos' pos1 sof'' by simp
qed

lemma init_source_nopos:
  assumes "int (length f) + INPUT_BUF_SIZE \<le> INT64_MAX"
  shows "\<exists>src. init_source (openslide_jpeg_fancy_src f [] 0 0 0 0) = Inr src
           \<and> nopos_inv src \<and> src_rem src = f
           \<and> openslide_jpeg_fancy_src_get_filepos src = 0"
  using assms
  by (simp add: init_source_def openslide_jpeg_fancy_src_def compute_next_positions_def
      nopos_inv_def src_rem_def openslide_jpeg_fancy_src_get_filepos_def)

lemma compute_optimization_scan:
  assumes len: "int (length (file_bytes f)) + INPUT_BUF_SIZE \<le> INT64_MAX"
    and ds: "data_start f < length (file_bytes f)"
    and ri: "restart_interval f \<noteq> 0"
    and cnt: "count = int ((MCUs_per_row f * MCU_rows_in_scan f) mod 2 ^ 32)
                        sdiv int (restart_interval f)"
    and pos: "0 < count"
  shows "compute_optimization f =
     Some (case scan_restart_markers (drop (data_start f) (file_bytes f))
                  (int (data_start f)) count
                  ((replicate (nat count) 0)[0 := int (data_start f)]) False 0 of
             Inl e \<Rightarrow> Inl e
           | Inr starts \<Rightarrow> Inr (count, starts))"
proof -
  from init_source_nopos [OF len] obtain src0 where
    i: "init_source (openslide_jpeg_fancy_src (file_bytes f) [] 0 0 0 0) = Inr src0" and
    inv0: "nopos_inv src0" and rem0: "src_rem src0 = file_bytes f" and
    pos0: "openslide_jpeg_fancy_src_get_filepos src0 = 0"
    by blast
  from ds rem0 have "data_start f \<le> length (src_rem src0)" by simp
  from jpeg_consume_rem [OF inv0 this] obtain src where
    c: "jpeg_consume (data_start f) src0 = Inr src" and inv: "nopos_inv src" and
    rem: "src_rem src = drop (data_start f) (file_bytes f)" and
    fp: "openslide_jpeg_fancy_src_get_filepos src = int (data_start f)"
    using rem0 pos0 by auto
  from ds rem have ne: "src_rem src \<noteq> []" by simp
  have scan: "find_restart_markers src count st False 0 =
      Some (scan_restart_markers (drop (data_start f) (file_bytes f)) (int (data_start f))
              count st False 0)" for st
    using find_restart_markers_scan [OF inv, of count st False 0] ne rem fp by simp
  have cnt': "int (MCUs_per_row f * MCU_rows_in_scan f mod 4294967296)
                sdiv int (restart_interval f) = count"
    using cnt by simp
  show ?thesis
    unfolding compute_optimization_def
    using ri pos
    by (simp add: i c Let_def cnt' scan fp split: sum.splits)
qed



section \<open>The example files\<close>

lemma replicate_2: "replicate 2 x = [x, x]"
  by (simp add: numeral_2_eq_2)

lemma example_compute_optimization:
  "compute_optimization example_file = Some (Inr (2, [2, 6]))"
proof -
  have "compute_optimization example_file =
     Some (case scan_restart_markers (drop (data_start example_file) (file_bytes example_file))
                  (int (data_start example_file)) 2
                  ((replicate (nat 2) 0)[0 := int (data_start example_file)]) False 0 of
             Inl e \<Rightarrow> Inl e
           | Inr starts \<Rightarrow> Inr (2, starts))"
    by (rule compute_optimization_scan)
       (simp_all add: example_file_def INPUT_BUF_SIZE_def INT64_MAX_def signed_divide_int_def)
  then show ?thesis
    by (simp add: example_file_def replicate_2 JPEG_EOI_def)
qed

lemma example_init_one_jpeg:
  "init_one_jpeg (example_fragment z) = Some (Inr example_jpeg)"
proof -
  have "to_int32 16 = 16" "to_int32 8 = 8"
    by (simp_all add: to_int32_def signed_take_bit_eq_take_bit_shift take_bit_eq_mod)
  then show ?thesis
    unfolding init_one_jpeg_def example_fragment_def
    by (simp add: example_compute_optimization Let_def)
       (simp add: example_file_def example_jpeg_def)
qed

lemma example_init_all_jpegs:
  "init_all_jpegs [example_fragment z] = Some (Inr [example_jpeg])"
  by (simp add: example_init_one_jpeg)

lemma example_flush:
  "cwl_flush cwl_init (example_fragment z) example_jpeg =
     \<lparr> prev_z = 0, prev_x = 0, prev_y = 0, layer_jpegs_tmp = [example_jpeg],
       l_pw = 16, l_ph = 8, img00_w = 16, img00_h = 8,
       layer0_w = (if z = 0 then 16 else 0), width_to_layer_map = [] \<rparr>"
  by (simp add: cwl_flush_def cwl_accumulate_def cwl_init_def example_fragment_def
      example_jpeg_def Let_def)

lemma example_generate:
  "generate_layers_into_map [example_jpeg] 1 1 16 8 16 8 l0w [] = Some (Inr (example_map l0w))"
  by (subst generate_layers_into_map_ok [where lj = "[example_jpeg]"])
     (simp_all add: insert_layer_def g_hash_table_insert_def example_layer_def example_map_def
        signed_divide_int_def)

lemma example_create_width_to_layer_map:
  assumes "z = 0 \<or> z = -1"
  shows "create_width_to_layer_map [example_fragment z] [example_jpeg] =
     Some (Inr (example_map (if z = 0 then 16 else 0)))"
proof -
  have succ: "is_zxy_successor (- 1) (- 1) (- 1) z 0 0"
    using assms by (auto simp: is_zxy_successor.simps)
  show ?thesis
    unfolding create_width_to_layer_map_def
    apply (simp only: zip_Cons_Cons zip_Nil cwl_loop_Cons example_flush)
    using succ
    apply (simp add: cwl_init_def example_fragment_def example_generate)
    done
qed

lemma example_keys:
  "g_hash_table_foreach (example_map l0w) get_keys [] = [2, 4, 8, 16]"
  by (simp add: g_hash_table_foreach_def get_keys_def example_map_def signed_divide_int_def)

lemma example_sort:
  "g_list_sort width_compare [2, 4, 8, 16] = Inr [16, 8, 4, 2]"
  by (simp add: g_list_sort.simps width_compare_def)

lemma example_load_layers:
  "load_layers (example_map l0w) [16, 8, 4, 2] = Inr (map (example_layer l0w) [1, 2, 4, 8])"
  by (simp add: example_map_def signed_divide_int_def)

lemma example_setup:
  assumes "create_width_to_layer_map [example_fragment z] [example_jpeg] =
     Some (Inr (example_map l0w))"
  shows "openslide_add_jpeg_ops (Some example_osr) [example_fragment z] =
     Some (Inr (Some (example_result l0w)))"
proof -
  have "g_hash_table_size (example_map l0w) = 4"
    by (simp add: g_hash_table_size_def example_map_def)
  then show ?thesis
    unfolding openslide_add_jpeg_ops_def
    by (simp add: example_osr_def example_init_all_jpegs assms example_keys example_sort
        example_load_layers example_result_def
        del: init_all_jpegs.simps load_layers.simps)
qed



section \<open>Validation of the fragment order\<close>

lemma is_zxy_successor_iff:
  "is_zxy_successor pz px py z x y \<longleftrightarrow> zxy_succ (pz, px, py) (z, x, y)"
  by (auto simp: is_zxy_successor.simps zxy_succ_def)

lemma prev_accumulate:
  "prev_z (cwl_accumulate s fr oj) = (if prev_z s = -1 then 0 else prev_z s)"
  by (simp add: cwl_accumulate_def Let_def)

lemma cwl_loop_chain:
  "cwl_loop s frs = Some (Inr m) \<Longrightarrow>
   zxy_chain (prev_z s, prev_x s, prev_y s) (map (\<lambda>p. zxy (fst p)) frs)"
proof (induction s frs rule: cwl_loop.induct)
  case (1 s)
  then show ?case by simp
next
  case (2 s fr oj rest)
  let ?s3 = "cwl_flush s fr oj"
  have succ: "\<not> \<not> is_zxy_successor (prev_z s) (prev_x s) (prev_y s) (fr_z fr) (fr_x fr) (fr_y fr)"
    using "2.prems"(1) unfolding cwl_loop_Cons by (simp split: if_splits)
  then have step: "zxy_succ (prev_z s, prev_x s, prev_y s) (zxy fr)"
    by (simp add: is_zxy_successor_iff zxy_def)
  have "zxy_chain (zxy fr) (map (\<lambda>p. zxy (fst p)) rest)"
  proof (cases "rest = [] \<or> fr_z (fst (hd rest)) \<noteq> fr_z fr")
    case True
    from "2.prems"(1) obtain m1 where
      gen: "generate_layers_into_map (layer_jpegs_tmp ?s3) (fr_x fr + 1) (fr_y fr + 1)
              (l_pw ?s3) (l_ph ?s3) (img00_w ?s3) (img00_h ?s3) (layer0_w ?s3)
              (width_to_layer_map ?s3) = Some (Inr m1)" and
      loop: "cwl_loop (?s3\<lparr>width_to_layer_map := m1, l_pw := 0, l_ph := 0,
                               img00_w := 0, img00_h := 0, layer_jpegs_tmp := [],
                               prev_z := fr_z fr, prev_x := fr_x fr, prev_y := fr_y fr\<rparr>) rest
             = Some (Inr m)"
      unfolding cwl_loop_Cons using succ True
      by (simp split: option.splits sum.splits)
    from "2.IH"(1) [OF succ refl True refl refl gen [unfolded cwl_flush_def Let_def] refl
          loop [unfolded cwl_flush_def Let_def]]
    show ?thesis by (simp add: zxy_def)
  next
    case False
    from "2.prems"(1) have
      loop: "cwl_loop ((cwl_accumulate s fr oj)\<lparr>prev_z := fr_z fr, prev_x := fr_x fr,
                prev_y := fr_y fr\<rparr>) rest = Some (Inr m)"
      unfolding cwl_loop_Cons using succ False by simp
    from "2.IH"(2) [OF succ refl False loop]
    show ?thesis by (simp add: zxy_def)
  qed
  with step show ?case by simp
qed

lemma create_width_to_layer_map_chain:
  assumes "create_width_to_layer_map fragments jpegs = Some (Inr m)"
    and "length fragments \<le> length jpegs"
  shows "zxy_chain (- 1, - 1, - 1) (map zxy fragments)"
proof -
  from cwl_loop_chain [OF assms(1) [unfolded create_width_to_layer_map_def]]
  have "zxy_chain (- 1, - 1, - 1) (map (\<lambda>p. zxy (fst p)) (zip fragments jpegs))"
    by (simp add: cwl_init_def)
  moreover have "map (\<lambda>p. zxy (fst p)) (zip fragments jpegs) = map zxy fragments"
    using assms(2) map_fst_zip_take [of fragments jpegs]
    by (simp add: map_map [symmetric, unfolded comp_def] del: map_map)
  ultimately show ?thesis by simp
qed

lemma first_fragment_origin:
  "zxy_succ (- 1, - 1, - 1) (z, x, y) \<Longrightarrow> z \<noteq> - 1 \<Longrightarrow> (z, x, y) = (0, 0, 0)"
  by (auto simp: zxy_succ_def)

text \<open>
  C4. The first fragment of a list that setup accepts is not always \<open>(0, 0, 0)\<close>: the
  check of the first fragment is the successor test against \<open>(-1, -1, -1)\<close>, and a
  fragment \<open>(z = -1, x = 0, y = 0)\<close> passes it. Setup builds four levels from it.
\<close>

theorem add_jpeg_ops_accepts_first_fragment_below_zero:
  "openslide_add_jpeg_ops (Some example_osr) [example_fragment (- 1)]
     = Some (Inr (Some (example_result 0)))
   \<and> zxy (example_fragment (- 1)) = (- 1, 0, 0)"
proof -
  have "create_width_to_layer_map [example_fragment (- 1)] [example_jpeg] =
      Some (Inr (example_map 0))"
    using example_create_width_to_layer_map [of "- 1"] by simp
  then show ?thesis
    by (simp add: example_setup) (simp add: zxy_def example_fragment_def)
qed

text \<open>
  C5. A flush whose grid fits the collected files (\<open>jpegs_across * jpegs_down\<close> is at
  most their number) returns, and what it returns is the table after four insertions,
  in the order of \<open>scale_denom = 1, 2, 4, 8\<close>: each inserts, under the key
  \<open>pixel_w / scale_denom\<close>, a level record with that \<open>scale_denom\<close>, and the four
  records share the files, \<open>pixel_w\<close>, \<open>pixel_h\<close> and every other field. The key is the
  published width of the record.
\<close>

theorem generate_layers_into_map_four_levels:
  assumes "nat (ja * jd) \<le> length jpegs"
  shows "generate_layers_into_map jpegs ja jd pw ph i00w i00h l0w m =
     Some (Inr (fold (\<lambda>sd t. g_hash_table_insert t (pw sdiv sd)
        \<lparr> layer_jpegs = take (nat (ja * jd)) jpegs, pixel_w = pw, pixel_h = ph,
          jpegs_across = ja, jpegs_down = jd, image00_w = i00w, image00_h = i00h,
          scale_denom = sd,
          no_scale_denom_downsample = double_div (double_of_int l0w) (double_of_int pw) \<rparr>)
        [1, 2, 4, 8] m))
   \<and> published_width
        \<lparr> layer_jpegs = take (nat (ja * jd)) jpegs, pixel_w = pw, pixel_h = ph,
          jpegs_across = ja, jpegs_down = jd, image00_w = i00w, image00_h = i00h,
          scale_denom = sd,
          no_scale_denom_downsample = double_div (double_of_int l0w) (double_of_int pw) \<rparr>
       = pw sdiv sd"
proof -
  have "copy_layer_jpegs jpegs (nat (ja * jd)) = Inr (take (nat (ja * jd)) jpegs)"
    using assms by (rule copy_layer_jpegs_take)
  then show ?thesis
    by (simp add: generate_layers_into_map_ok insert_layer_def published_width_def)
qed

theorem generate_layers_into_map_four_levels_witness:
  "nat (1 * 1) \<le> length [example_jpeg]
   \<and> generate_layers_into_map [example_jpeg] 1 1 16 8 16 8 16 [] =
       Some (Inr [(16, example_layer 16 1), (8, example_layer 16 2),
                  (4, example_layer 16 4), (2, example_layer 16 8)])
   \<and> published_width (example_layer 16 8) = 2"
  using generate_layers_into_map_four_levels [of 1 1 "[example_jpeg]" 16 8 16 8 16 "[]" 8]
  by (simp add: example_layer_def g_hash_table_insert_def signed_divide_int_def)

text \<open>
  C6. After setup the level array is in descending order of published width.
\<close>

theorem levels_sorted_by_published_width:
  assumes "openslide_add_jpeg_ops (Some osr) fragments = Some (Inr (Some osr'))"
    and "data osr' = Some d" and "i < j" and "j < length (layers d)"
  shows "published_width (layers d ! j) \<le> published_width (layers d ! i)"
proof -
  from assms(1,2) obtain jpegs m layer_keys where
    cw: "create_width_to_layer_map fragments jpegs = Some (Inr m)" and
    srt: "g_list_sort width_compare (g_hash_table_foreach m get_keys []) = Inr layer_keys" and
    ld: "load_layers m layer_keys = Inr (layers d)"
    unfolding openslide_add_jpeg_ops_def
    by (auto split: if_splits option.splits sum.splits)
  have "wl_inv m"
    using cw by (rule create_width_to_layer_map_inv)
  with ld have "map published_width (layers d) = layer_keys"
    by (rule load_layers_published)
  moreover have "sorted_wrt (\<ge>) layer_keys"
    using g_list_sort_sorted [OF srt] by simp
  ultimately have "sorted_wrt (\<ge>) (map published_width (layers d))"
    by simp
  then have "sorted_wrt (\<lambda>a b. published_width a \<ge> published_width b) (layers d)"
    by (simp add: sorted_wrt_map)
  with assms(3,4) show ?thesis
    by (simp add: sorted_wrt_iff_nth_less)
qed

theorem levels_sorted_by_published_width_witness:
  "openslide_add_jpeg_ops (Some example_osr) [example_fragment 0]
     = Some (Inr (Some (example_result 16)))
   \<and> layers (the (data (example_result 16))) = map (example_layer 16) [1, 2, 4, 8]
   \<and> published_width (example_layer 16 2) \<le> published_width (example_layer 16 1)"
proof -
  have cw: "create_width_to_layer_map [example_fragment 0] [example_jpeg] =
      Some (Inr (example_map 16))"
    using example_create_width_to_layer_map [of 0] by simp
  have ok: "openslide_add_jpeg_ops (Some example_osr) [example_fragment 0]
     = Some (Inr (Some (example_result 16)))"
    using cw by (rule example_setup)
  have d: "data (example_result 16) =
      Some \<lparr> jpeg_count = 1, all_jpegs = [example_jpeg],
             layers = map (example_layer 16) [1, 2, 4, 8] \<rparr>"
    by (simp add: example_result_def)
  from levels_sorted_by_published_width [OF ok d, of 0 1]
  show ?thesis using ok by (simp add: example_result_def)
qed



section \<open>The table of restart positions\<close>

lemma scan_restart_markers_in_bounds:
  "int (count_restart_markers bs last_was_ff) + marker < int (length starts) \<Longrightarrow>
   0 \<le> marker \<Longrightarrow>
   \<exists>starts'. scan_restart_markers bs pos count starts last_was_ff marker = Inr starts'
      \<and> length starts' = length starts"
proof (induction bs arbitrary: pos starts last_was_ff marker)
  case Nil
  then show ?case by simp
next
  case (Cons b bs)
  show ?case
  proof (cases "last_was_ff \<and> b = JPEG_EOI")
    case True
    then show ?thesis by simp
  next
    case eoi: False
    show ?thesis
    proof (cases "last_was_ff \<and> b \<ge> 0xD0 \<and> b < 0xD8")
      case True
      with eoi Cons.prems have
        "int (count_restart_markers bs (b = 0xFF)) + (marker + 1)
           < int (length (starts[nat (1 + marker) := pos + 1]))"
        by simp
      from Cons.IH [where pos = "pos + 1", OF this] Cons.prems(2) obtain st where
        "scan_restart_markers bs (pos + 1) count (starts[nat (1 + marker) := pos + 1])
           (b = 0xFF) (marker + 1) = Inr st" "length st = length starts"
        by auto
      moreover have "1 + marker < int (length starts)"
        using True eoi Cons.prems by simp
      ultimately show ?thesis
        using True eoi Cons.prems(2) by simp
    next
      case False
      with eoi Cons.prems have
        "int (count_restart_markers bs (b = 0xFF)) + marker < int (length starts)"
        by (simp split: if_splits)
      from Cons.IH [where pos = "pos + 1", OF this Cons.prems(2)] obtain st where
        "scan_restart_markers bs (pos + 1) count starts (b = 0xFF) marker = Inr st"
        "length st = length starts"
        by auto
      then show ?thesis
        using False eoi by auto
    qed
  qed
qed

lemma scan_restart_markers_length:
  "scan_restart_markers bs pos count starts last_was_ff marker = Inr starts' \<Longrightarrow>
   length starts' = length starts"
  by (induction bs pos count starts last_was_ff marker rule: scan_restart_markers.induct)
     (auto split: if_splits)

text \<open>
  When the data holds fewer restart markers before its end-of-image marker than the
  table has entries, the index pass returns and every write is inside the table.
\<close>

lemma compute_optimization_in_bounds:
  assumes len: "int (length (file_bytes f)) + INPUT_BUF_SIZE \<le> INT64_MAX"
    and ds: "data_start f < length (file_bytes f)"
    and ri: "restart_interval f \<noteq> 0"
    and cnt: "count = int ((MCUs_per_row f * MCU_rows_in_scan f) mod 2 ^ 32)
                        sdiv int (restart_interval f)"
    and few: "int (count_restart_markers (drop (data_start f) (file_bytes f)) False) < count"
  shows "\<exists>starts. compute_optimization f = Some (Inr (count, starts))
           \<and> int (length starts) = count"
proof -
  from few have pos: "0 < count" by linarith
  let ?st = "(replicate (nat count) 0)[0 := int (data_start f)]"
  have "int (count_restart_markers (drop (data_start f) (file_bytes f)) False) + 0
          < int (length ?st)"
    using few pos by simp
  from scan_restart_markers_in_bounds [where pos = "int (data_start f)" and count = count, OF this]
  obtain st where
    "scan_restart_markers (drop (data_start f) (file_bytes f)) (int (data_start f)) count
       ?st False 0 = Inr st" "length st = length ?st"
    by auto
  then show ?thesis
    using pos by (simp add: compute_optimization_scan [OF len ds ri cnt pos])
qed

text \<open>
  C9. The scan writes position \<open>k\<close> of the table for the \<open>k\<close>-th restart marker it
  meets, as long as fewer than \<open>mcu_starts_count\<close> markers have been met: the last of
  these writes goes to index \<open>mcu_starts_count\<close>, one past the table. A file of three
  MCUs with a restart interval of two has one restart marker and a table of
  \<open>3 / 2 = 1\<close> entry; the scan of its data, which starts at offset 2, writes at index 1.
\<close>

theorem compute_optimization_writes_past_table:
  "compute_optimization overrun_file = Some (Inl OutOfBounds)
   \<and> scan_restart_markers (drop 2 (file_bytes overrun_file)) 2 1 [2] False 0
       = Inl OutOfBounds
   \<and> count_restart_markers (drop 2 (file_bytes overrun_file)) False = 1"
proof -
  have "compute_optimization overrun_file =
     Some (case scan_restart_markers (drop (data_start overrun_file) (file_bytes overrun_file))
                  (int (data_start overrun_file)) 1
                  ((replicate (nat 1) 0)[0 := int (data_start overrun_file)]) False 0 of
             Inl e \<Rightarrow> Inl e
           | Inr starts \<Rightarrow> Inr (1, starts))"
    by (rule compute_optimization_scan)
       (simp_all add: overrun_file_def INPUT_BUF_SIZE_def INT64_MAX_def signed_divide_int_def)
  then show ?thesis
    by (simp add: overrun_file_def JPEG_EOI_def)
qed



lemma find_restart_markers_length_aux:
  assumes "find_restart_markers src count starts last_was_ff marker = Some r"
  shows "\<forall>starts'. r = Inr starts' \<longrightarrow> length starts' = length starts"
proof (rule find_restart_markers.raw_induct
    [where P = "\<lambda>src count starts last_was_ff marker r.
       \<forall>starts'. r = Inr starts' \<longrightarrow> length starts' = length starts", OF _ assms],
    goal_cases)
  case (1 f src count starts last_was_ff marker r)
  show ?case
  proof (cases "marker < count")
    case False
    with 1(2) show ?thesis by auto
  next
    case True
    show ?thesis
    proof (cases "read_source_byte src")
      case (Inl e)
      with True 1(2) show ?thesis by auto
    next
      case (Inr p)
      obtain b src1 where p: "p = (b, src1)" by (cases p)
      from 1(2) True Inr p 1(1) [of src1 count _ "b = 0xFF" _ r]
      show ?thesis
        by (auto split: if_splits)
    qed
  qed
qed

lemma find_restart_markers_length:
  "find_restart_markers src count starts last_was_ff marker = Some (Inr starts') \<Longrightarrow>
   length starts' = length starts"
  using find_restart_markers_length_aux by blast


lemma compute_optimization_count:
  assumes "compute_optimization f = Some (Inr (c, st))"
  shows "restart_interval f \<noteq> 0
    \<and> c = int ((MCUs_per_row f * MCU_rows_in_scan f) mod 2 ^ 32) sdiv int (restart_interval f)
    \<and> int (length st) = c"
proof -
  define count where
    "count = int ((MCUs_per_row f * MCU_rows_in_scan f) mod 2 ^ 32) sdiv int (restart_interval f)"
  obtain src0 where i: "init_source (openslide_jpeg_fancy_src (file_bytes f) [] 0 0 0 0) = Inr src0"
    using assms unfolding compute_optimization_def
    by (cases "init_source (openslide_jpeg_fancy_src (file_bytes f) [] 0 0 0 0)") auto
  obtain src where c: "jpeg_consume (data_start f) src0 = Inr src"
    using assms unfolding compute_optimization_def
    by (cases "jpeg_consume (data_start f) src0") (auto simp: i)
  have body: "compute_optimization f =
     (if restart_interval f = 0 then Some (Inl DivideByZero)
      else if \<not> 0 < length (replicate (nat count) (0::int)) then Some (Inl OutOfBounds)
      else (case find_restart_markers src count
               ((replicate (nat count) 0)[0 := openslide_jpeg_fancy_src_get_filepos src])
               False 0 of
              None \<Rightarrow> None
            | Some (Inl e) \<Rightarrow> Some (Inl e)
            | Some (Inr starts') \<Rightarrow> Some (Inr (count, starts'))))"
    unfolding compute_optimization_def count_def
    by (simp only: i c sum.case Let_def)
  from assms have ri: "restart_interval f \<noteq> 0"
    unfolding body by (auto split: if_splits)
  from assms ri have pos: "0 < length (replicate (nat count) (0::int))"
    unfolding body by (auto split: if_splits)
  from assms ri pos have scan: "find_restart_markers src count
               ((replicate (nat count) 0)[0 := openslide_jpeg_fancy_src_get_filepos src])
               False 0 = Some (Inr st)" and cc: "c = count"
    unfolding body by (auto split: option.splits sum.splits)
  from find_restart_markers_length [OF scan] pos cc ri show ?thesis
    by (simp add: count_def)
qed



lemma div_div_self:
  fixes w n :: nat
  assumes "w mod n < w div n"
  shows "w div (w div n) = n"
proof -
  let ?q = "w div n"
  have q: "0 < ?q" using assms by simp
  have "w = w mod n + n * ?q" by simp
  then have "w div ?q = (w mod n + n * ?q) div ?q" by simp
  also have "\<dots> = n + w mod n div ?q"
    using q by (intro div_mult_self1) simp
  also have "\<dots> = n" using assms by simp
  finally show ?thesis .
qed

lemma sdiv_nonneg: "0 \<le> a \<Longrightarrow> 0 \<le> b \<Longrightarrow> a sdiv b = a div (b::int)"
  by (cases "a = 0"; cases "b = 0") (simp_all add: signed_divide_int_def sgn_if)

lemma to_int32_id: "0 \<le> v \<Longrightarrow> v < 2 ^ 31 \<Longrightarrow> to_int32 v = v"
  unfolding to_int32_def by (rule signed_take_bit_int_eq_self) simp_all

lemma init_one_jpeg_fields:
  assumes "init_one_jpeg fr = Some (Inr oj)"
    and w: "output_width (fr_f fr) < 2 ^ 31" and h: "output_height (fr_f fr) < 2 ^ 31"
  shows "restart_interval (fr_f fr) \<noteq> 0"
    and "MCUs_per_row (fr_f fr) div restart_interval (fr_f fr) \<noteq> 0"
    and "MCU_rows_in_scan (fr_f fr) \<noteq> 0"
    and "mcu_starts_count oj =
           int ((MCUs_per_row (fr_f fr) * MCU_rows_in_scan (fr_f fr)) mod 2 ^ 32)
             sdiv int (restart_interval (fr_f fr))"
    and "int (length (mcu_starts oj)) = mcu_starts_count oj"
    and "width oj = int (output_width (fr_f fr))"
    and "height oj = int (output_height (fr_f fr))"
    and "tile_width oj = int (output_width (fr_f fr)
           div (MCUs_per_row (fr_f fr) div restart_interval (fr_f fr)))"
    and "tile_height oj = int (output_height (fr_f fr) div MCU_rows_in_scan (fr_f fr))"
proof -
  let ?f = "fr_f fr"
  obtain c st where co: "compute_optimization ?f = Some (Inr (c, st))"
  proof (cases "compute_optimization ?f")
    case None
    with assms(1) show ?thesis by (simp add: init_one_jpeg_def)
  next
    case (Some r)
    show ?thesis
    proof (cases r)
      case (Inl e)
      with Some assms(1) show ?thesis by (simp add: init_one_jpeg_def)
    next
      case (Inr p)
      with Some that show ?thesis by (cases p) simp
    qed
  qed
  have wi: "int (output_width ?f) < 2 ^ 31" and hi: "int (output_height ?f) < 2 ^ 31"
    using w h by simp_all
  have w32: "to_int32 (int (output_width ?f)) = int (output_width ?f)"
    using wi by (intro to_int32_id) simp_all
  have h32: "to_int32 (int (output_height ?f)) = int (output_height ?f)"
    using hi by (intro to_int32_id) simp_all
  have wm: "int (output_width ?f) mod 2 ^ 32 = int (output_width ?f)"
    using wi by simp
  have hm: "int (output_height ?f) mod 2 ^ 32 = int (output_height ?f)"
    using hi by simp
  have tw: "to_int32 (int (output_width ?f div n)) = int (output_width ?f div n)" for n
  proof (rule to_int32_id)
    have "int (output_width ?f div n) \<le> int (output_width ?f)"
      by (simp add: div_le_dividend)
    with wi show "int (output_width ?f div n) < 2 ^ 31" by linarith
  qed simp
  have th: "to_int32 (int (output_height ?f div n)) = int (output_height ?f div n)" for n
  proof (rule to_int32_id)
    have "int (output_height ?f div n) \<le> int (output_height ?f)"
      by (simp add: div_le_dividend)
    with hi show "int (output_height ?f div n) < 2 ^ 31" by linarith
  qed simp
  have body: "init_one_jpeg fr =
     (if restart_interval ?f = 0 \<or> MCUs_per_row ?f div restart_interval ?f = 0
           \<or> MCU_rows_in_scan ?f = 0
      then Some (Inl DivideByZero)
      else Some (Inr \<lparr> jpeg_f = ?f, mcu_starts_count = c, mcu_starts = st,
             tile_width = to_int32 ((to_int32 (int (output_width ?f)) mod 2 ^ 32)
                div int (MCUs_per_row ?f div restart_interval ?f)),
             tile_height = to_int32 ((to_int32 (int (output_height ?f)) mod 2 ^ 32)
                div int (MCU_rows_in_scan ?f)),
             width = to_int32 (int (output_width ?f)),
             height = to_int32 (int (output_height ?f)),
             comment = map_option (takeWhile (\<lambda>c. c \<noteq> CHR 0x00)) (com_marker ?f) \<rparr>))"
    unfolding init_one_jpeg_def
    by (simp only: Let_def co option.case sum.case prod.case)
  from assms(1) have
    nz: "\<not> (restart_interval ?f = 0 \<or> MCUs_per_row ?f div restart_interval ?f = 0
           \<or> MCU_rows_in_scan ?f = 0)"
    unfolding body by (auto split: if_splits)
  with assms(1) have
    oj: "oj = \<lparr> jpeg_f = ?f, mcu_starts_count = c, mcu_starts = st,
             tile_width = to_int32 ((to_int32 (int (output_width ?f)) mod 2 ^ 32)
                div int (MCUs_per_row ?f div restart_interval ?f)),
             tile_height = to_int32 ((to_int32 (int (output_height ?f)) mod 2 ^ 32)
                div int (MCU_rows_in_scan ?f)),
             width = to_int32 (int (output_width ?f)),
             height = to_int32 (int (output_height ?f)),
             comment = map_option (takeWhile (\<lambda>c. c \<noteq> CHR 0x00)) (com_marker ?f) \<rparr>"
    unfolding body by simp
  from nz show "restart_interval ?f \<noteq> 0" "MCUs_per_row ?f div restart_interval ?f \<noteq> 0"
    "MCU_rows_in_scan ?f \<noteq> 0" by simp_all
  from compute_optimization_count [OF co] oj
  show "mcu_starts_count oj =
           int ((MCUs_per_row ?f * MCU_rows_in_scan ?f) mod 2 ^ 32)
             sdiv int (restart_interval ?f)"
    and "int (length (mcu_starts oj)) = mcu_starts_count oj"
    by simp_all
  show "width oj = int (output_width ?f)" "height oj = int (output_height ?f)"
    by (simp_all add: oj w32 h32)
  have "to_int32 (int (output_width ?f) mod 2 ^ 32 div int n)
          = int (output_width ?f div n)" for n
    unfolding wm by (simp only: tw flip: zdiv_int)
  then show "tile_width oj
      = int (output_width ?f div (MCUs_per_row ?f div restart_interval ?f))"
    by (simp add: oj w32)
  have "to_int32 (int (output_height ?f) mod 2 ^ 32 div int n)
          = int (output_height ?f div n)" for n
    unfolding hm by (simp only: th flip: zdiv_int)
  then show "tile_height oj = int (output_height ?f div MCU_rows_in_scan ?f)"
    by (simp add: oj h32)
qed



lemma sdiv_of_nat: "int a sdiv int b = int (a div b)"
  by (simp add: sdiv_nonneg zdiv_int)

lemma odd_interval_compute_optimization:
  "compute_optimization odd_interval_file = Some (Inr (3, [2, 5, 8]))"
proof -
  have "compute_optimization odd_interval_file =
     Some (case scan_restart_markers
                  (drop (data_start odd_interval_file) (file_bytes odd_interval_file))
                  (int (data_start odd_interval_file)) 3
                  ((replicate (nat 3) 0)[0 := int (data_start odd_interval_file)]) False 0 of
             Inl e \<Rightarrow> Inl e
           | Inr starts \<Rightarrow> Inr (3, starts))"
    by (rule compute_optimization_scan)
       (simp_all add: odd_interval_file_def INPUT_BUF_SIZE_def INT64_MAX_def
          signed_divide_int_def)
  then show ?thesis
    by (simp add: odd_interval_file_def numeral_3_eq_3 JPEG_EOI_def)
qed

lemma odd_interval_init_one_jpeg:
  "init_one_jpeg \<lparr> fr_f = odd_interval_file, fr_x = 0, fr_y = 0, fr_z = 0 \<rparr>
     = Some (Inr odd_interval_jpeg)"
proof -
  have "to_int32 24 = 24" "to_int32 16 = 16" "to_int32 8 = 8"
    by (simp_all add: to_int32_id)
  then show ?thesis
    unfolding init_one_jpeg_def
    by (simp add: odd_interval_compute_optimization Let_def)
       (simp add: odd_interval_file_def odd_interval_jpeg_def)
qed

text \<open>
  C7. The count of restart positions is not always the number of tiles that the tile
  size gives: with three MCUs in a row and a restart interval of two, a \<open>tile\<close> is the
  whole row, so the image of two MCU rows has \<open>1 \<times> 2\<close> tiles, while
  \<open>(3 \<times> 2) / 2 = 3\<close> positions are recorded.
\<close>

theorem mcu_starts_count_is_not_tile_count:
  "init_one_jpeg \<lparr> fr_f = odd_interval_file, fr_x = 0, fr_y = 0, fr_z = 0 \<rparr>
     = Some (Inr odd_interval_jpeg)
   \<and> length (mcu_starts odd_interval_jpeg) = 3
   \<and> mcu_starts_count odd_interval_jpeg = 3
   \<and> tile_width odd_interval_jpeg = 24 sdiv (3 sdiv 2)
   \<and> tile_height odd_interval_jpeg = 16 sdiv 2
   \<and> (width odd_interval_jpeg sdiv tile_width odd_interval_jpeg)
       * (height odd_interval_jpeg sdiv tile_height odd_interval_jpeg) = 2"
  by (simp add: odd_interval_init_one_jpeg)
     (simp add: odd_interval_jpeg_def signed_divide_int_def)

text \<open>
  C7, amended. For a file the index pass accepts, the count of restart positions (and
  the length of the table) is \<open>(width / tile_width) \<times> (height / tile_height)\<close> when
  the restart interval divides the number of MCUs in a row, and the width and the
  height, divided by the number of tiles in a row (\<open>MCUs_per_row / restart_interval\<close>)
  and by the number of MCU rows, leave a remainder smaller than the quotient (as they do
  when they divide evenly). The sizes are in the range of the C types.
\<close>

theorem mcu_starts_count_is_tile_count:
  assumes init: "init_one_jpeg fr = Some (Inr oj)"
    and f: "f = fr_f fr"
    and dvd: "restart_interval f dvd MCUs_per_row f"
    and range: "MCUs_per_row f * MCU_rows_in_scan f < 2 ^ 32"
      "output_width f < 2 ^ 31" "output_height f < 2 ^ 31"
    and across: "output_width f mod (MCUs_per_row f div restart_interval f)
                   < output_width f div (MCUs_per_row f div restart_interval f)"
    and down: "output_height f mod MCU_rows_in_scan f
                   < output_height f div MCU_rows_in_scan f"
  shows "mcu_starts_count oj
           = (width oj sdiv tile_width oj) * (height oj sdiv tile_height oj)
         \<and> int (length (mcu_starts oj)) = mcu_starts_count oj"
proof -
  let ?n = "MCUs_per_row f div restart_interval f"
  note fl = init_one_jpeg_fields [OF init range(2,3) [unfolded f], folded f]
  have "mcu_starts_count oj
      = int (MCUs_per_row f * MCU_rows_in_scan f) sdiv int (restart_interval f)"
    using fl(4) range(1) by simp
  also have "\<dots> = int (MCUs_per_row f * MCU_rows_in_scan f div restart_interval f)"
    by (rule sdiv_of_nat)
  also have "MCUs_per_row f * MCU_rows_in_scan f div restart_interval f
      = ?n * MCU_rows_in_scan f"
    using dvd by (simp add: div_mult_swap mult.commute)
  finally have count: "mcu_starts_count oj = int (?n * MCU_rows_in_scan f)" .
  have "width oj sdiv tile_width oj = int (output_width f div (output_width f div ?n))"
    by (simp only: fl sdiv_of_nat)
  then have wt: "width oj sdiv tile_width oj = int ?n"
    using div_div_self [OF across] by simp
  have "height oj sdiv tile_height oj
      = int (output_height f div (output_height f div MCU_rows_in_scan f))"
    by (simp only: fl sdiv_of_nat)
  then have ht: "height oj sdiv tile_height oj = int (MCU_rows_in_scan f)"
    using div_div_self [OF down] by simp
  show ?thesis
    using count wt ht fl(5) by simp
qed

theorem mcu_starts_count_is_tile_count_witness:
  "init_one_jpeg (example_fragment 0) = Some (Inr example_jpeg)
   \<and> restart_interval example_file dvd MCUs_per_row example_file
   \<and> mcu_starts_count example_jpeg = 2
   \<and> (width example_jpeg sdiv tile_width example_jpeg)
       * (height example_jpeg sdiv tile_height example_jpeg) = 2
   \<and> length (mcu_starts example_jpeg) = 2"
proof -
  have f: "example_file = fr_f (example_fragment 0)"
    by (simp add: example_fragment_def)
  have "mcu_starts_count example_jpeg
           = (width example_jpeg sdiv tile_width example_jpeg)
               * (height example_jpeg sdiv tile_height example_jpeg)
         \<and> int (length (mcu_starts example_jpeg)) = mcu_starts_count example_jpeg"
    by (rule mcu_starts_count_is_tile_count [OF example_init_one_jpeg f])
       (simp_all add: example_file_def)
  moreover have "mcu_starts_count example_jpeg = 2"
    by (simp add: example_jpeg_def)
  ultimately show ?thesis
    by (simp add: example_init_one_jpeg) (simp add: example_file_def)
qed



section \<open>Rewriting of the restart markers\<close>

lemma is_restart_at_from: "is_restart_at bs i \<longleftrightarrow> restart_from False bs i"
  by (cases i) (auto simp: is_restart_at_def restart_from_def)

lemma restart_from_0:
  "restart_from lf (b # bs) 0 \<longleftrightarrow> lf \<and> 0xD0 \<le> b \<and> b < 0xD8"
  by (simp add: restart_from_def)

lemma restart_from_Suc:
  "restart_from lf (b # bs) (Suc i) \<longleftrightarrow> restart_from (b = 0xFF) bs i"
  by (cases i) (auto simp: restart_from_def)

lemma length_filter_upt_Suc:
  "length (filter P [0..<Suc i]) = (if P 0 then 1 else 0) + length (filter (\<lambda>j. P (Suc j)) [0..<i])"
proof -
  have "[0..<Suc i] = 0 # map Suc [0..<i]"
    by (simp only: map_Suc_upt upt_conv_Cons [of 0 "Suc i"] zero_less_Suc)
  then show ?thesis
    by (simp add: filter_map comp_def del: upt_Suc)
qed

lemma restarts_from_Suc:
  "length (filter (restart_from lf (b # bs)) [0..<Suc i]) =
     (if lf \<and> 0xD0 \<le> b \<and> b < 0xD8 then 1 else 0)
     + length (filter (restart_from (b = 0xFF) bs) [0..<i])"
  by (simp only: length_filter_upt_Suc restart_from_0 restart_from_Suc)

lemma rewrite_restart_markers_spec:
  "rewrite_restart_markers lf nrm bs = (bs', nrm', lf') \<Longrightarrow>
   length bs' = length bs
   \<and> (\<forall>i < length bs. bs' ! i =
         (if restart_from lf bs i
          then 0xD0 OR (next_marker ^^ length (filter (restart_from lf bs) [0..<i])) nrm
          else bs ! i))
   \<and> nrm' = (next_marker ^^ length (filter (restart_from lf bs) [0..<length bs])) nrm
   \<and> lf' = (if bs = [] then lf else last bs = 0xFF)"
proof (induction bs arbitrary: lf nrm bs' nrm' lf')
  case Nil
  then show ?case by simp
next
  case (Cons b bs)
  let ?m = "lf \<and> 0xD0 \<le> b \<and> b < 0xD8"
  let ?nrm1 = "if ?m then next_marker nrm else nrm"
  obtain bs1 where
    rec: "rewrite_restart_markers (b = 0xFF) ?nrm1 bs = (bs1, nrm', lf')" and
    bs': "bs' = (if ?m then 0xD0 OR nrm else b) # bs1"
    using Cons.prems by (auto simp: next_marker_def split: if_splits prod.splits)
  note ih = Cons.IH [OF rec]
  have len: "length bs' = length (b # bs)"
    using ih bs' by simp
  have cnt: "(next_marker ^^ k) ?nrm1 = (next_marker ^^ ((if ?m then 1 else 0) + k)) nrm" for k
    by (simp add: funpow_swap1)
  have elems: "bs' ! i =
         (if restart_from lf (b # bs) i
          then 0xD0 OR (next_marker ^^ length (filter (restart_from lf (b # bs)) [0..<i])) nrm
          else (b # bs) ! i)" if "i < length (b # bs)" for i
  proof (cases i)
    case 0
    then show ?thesis by (simp add: bs' restart_from_0)
  next
    case (Suc j)
    with that have j: "j < length bs" by simp
    from ih j have "bs1 ! j =
         (if restart_from (b = 0xFF) bs j
          then 0xD0 OR (next_marker ^^ length (filter (restart_from (b = 0xFF) bs) [0..<j])) ?nrm1
          else bs ! j)" by blast
    then show ?thesis
      unfolding Suc restarts_from_Suc restart_from_Suc cnt bs' by simp
  qed
  have fin: "nrm' = (next_marker ^^ length (filter (restart_from lf (b # bs))
                [0..<length (b # bs)])) nrm"
    using ih unfolding length_Cons restarts_from_Suc cnt by blast
  have lst: "lf' = (if b # bs = [] then lf else last (b # bs) = 0xFF)"
    using ih by simp
  from len elems fin lst show ?case by blast
qed

lemma next_marker_less: "next_marker c < 8"
  unfolding next_marker_def by (rule word_mod_less_divisor) simp

lemma funpow_next_marker_less: "c < 8 \<Longrightarrow> (next_marker ^^ k) c < 8"
  by (cases k) (simp_all add: next_marker_less)

lemma and_7_id: "(c::byte) < 8 \<Longrightarrow> c AND 7 = c"
  using less_mask_eq [of c 3] by (simp add: mask_eq_exp_minus_1)



lemma compute_next_positions_marker:
  "compute_next_positions src = Inr src1 \<Longrightarrow>
   next_restart_marker src1 = next_restart_marker src \<and> infile src1 = infile src
   \<and> start_of_file src1 = start_of_file src"
  unfolding compute_next_positions_def Let_def
  by (auto split: if_splits sum.splits)

lemma fill_segment_marker:
  "fill_segment src = Inr (src2, n) \<Longrightarrow>
   next_restart_marker src2 = next_restart_marker src \<and> infile src2 = infile src
   \<and> start_of_file src2 = start_of_file src"
  unfolding fill_segment_def Let_def
  by (auto split: if_splits sum.splits dest: compute_next_positions_marker)

lemma init_source_marker:
  "init_source src = Inr src0 \<Longrightarrow> next_restart_marker src0 = 0"
  unfolding init_source_def by (drule compute_next_positions_marker) simp

lemma fill_input_buffer_marker_less:
  assumes "fill_input_buffer src = Inr src'" and "next_restart_marker src < 8"
  shows "next_restart_marker src' < 8"
proof -
  from assms(1) obtain rw src2 n where
    seg: "fill_segment src = Inr (src2, n)" and
    buf: "fill_buffer rw src2 (fread (infile src2) (file_pos src2) n) = Inr src'"
    unfolding fill_input_buffer_def by (auto split: sum.splits)
  let ?fresh = "fread (infile src2) (file_pos src2) n"
  have nrm2: "next_restart_marker src2 < 8"
    using fill_segment_marker [OF seg] assms(2) by simp
  obtain b nrm' lf' where
    r: "rewrite_restart_markers False (next_restart_marker src2) ?fresh = (b, nrm', lf')"
    by (cases "rewrite_restart_markers False (next_restart_marker src2) ?fresh") auto
  have "nrm' < 8"
    using rewrite_restart_markers_spec [OF r] funpow_next_marker_less [OF nrm2] by simp
  with buf nrm2 r show ?thesis
    unfolding fill_buffer_def Let_def by (auto split: if_splits)
qed

text \<open>
  C3. A fill after the header pass, that is with a table of positions and the file at or
  past \<open>positions[0]\<close>, that reads at least one byte: in the bytes read, the second
  byte of every \<open>FF Dn\<close> with \<open>n\<close> in \<open>0..7\<close> becomes \<open>D0 | (c & 7)\<close>, where \<open>c\<close> is
  \<open>next_restart_marker\<close> after one increment modulo 8 for each marker before it; every
  other byte is unchanged; \<open>next_restart_marker\<close> ends incremented once for each
  marker; and when the last byte read is \<open>FF\<close> and more than one byte was read, the
  byte count is one less than the bytes read and the file is back by one byte.
  \<open>next_restart_marker\<close> is below 8 whenever a fill starts.
\<close>

theorem fill_input_buffer_rewrites_restart_markers:
  assumes "start_positions_count src \<noteq> 0"
    and "start_positions_at src 0 = Inr p0" and "p0 \<le> file_pos src"
    and "fill_segment src = Inr (src2, bytes_to_read)"
    and "fresh = fread (infile src2) (file_pos src2) bytes_to_read"
    and "fresh \<noteq> []"
    and "next_restart_marker src < 8"
  shows "\<exists>src'. fill_input_buffer src = Inr src'
     \<and> length (buffer src') = length fresh
     \<and> (\<forall>i < length fresh. buffer src' ! i =
          (if is_restart_at fresh i
           then 0xD0 OR ((next_marker ^^ restarts_before fresh i) (next_restart_marker src)
                          AND 7)
           else fresh ! i))
     \<and> next_restart_marker src'
         = (next_marker ^^ restarts_before fresh (length fresh)) (next_restart_marker src)
     \<and> (if last fresh = 0xFF \<and> 1 < length fresh
         then bytes_in_buffer src' = length fresh - 1
              \<and> file_pos src' = file_pos src2 + int (length fresh) - 1
         else bytes_in_buffer src' = length fresh
              \<and> file_pos src' = file_pos src2 + int (length fresh))"
proof -
  let ?nrm = "next_restart_marker src"
  have rw: "fill_rewrite_markers src = Inr True"
    using assms(1-3) by (simp add: fill_rewrite_markers_def)
  have nrm2: "next_restart_marker src2 = ?nrm"
    using fill_segment_marker [OF assms(4)] by simp
  obtain buf nrm' lf' where
    r: "rewrite_restart_markers False ?nrm fresh = (buf, nrm', lf')"
    by (cases "rewrite_restart_markers False ?nrm fresh") auto
  from rewrite_restart_markers_spec [OF r] have
    len: "length buf = length fresh" and
    el: "\<And>i. i < length fresh \<Longrightarrow> buf ! i =
         (if restart_from False fresh i
          then 0xD0 OR (next_marker ^^ length (filter (restart_from False fresh) [0..<i])) ?nrm
          else fresh ! i)" and
    fin: "nrm' = (next_marker ^^ length (filter (restart_from False fresh)
             [0..<length fresh])) ?nrm" and
    lf: "lf' = (last fresh = 0xFF)"
    using assms(6) by simp_all
  have rf: "restart_from False fresh = is_restart_at fresh"
    by (rule ext) (simp add: is_restart_at_from)
  have m7: "(next_marker ^^ k) ?nrm AND 7 = (next_marker ^^ k) ?nrm" for k
    using funpow_next_marker_less [OF assms(7)] by (rule and_7_id)
  define src' where "src' =
     (if last fresh = 0xFF \<and> 1 < length fresh
      then src2\<lparr>file_pos := file_pos src2 + int (length fresh) - 1, buffer := buf,
                next_restart_marker := nrm', next_input_byte := 0,
                bytes_in_buffer := length fresh - 1, start_of_file := False\<rparr>
      else src2\<lparr>file_pos := file_pos src2 + int (length fresh), buffer := buf,
                next_restart_marker := nrm', next_input_byte := 0,
                bytes_in_buffer := length fresh, start_of_file := False\<rparr>)"
  have fill: "fill_input_buffer src = Inr src'"
    unfolding fill_input_buffer_def
    using assms(6)
    by (simp add: rw assms(4) assms(5) [symmetric] fill_buffer_def Let_def nrm2 r lf src'_def)
  have "length (buffer src') = length fresh"
    by (simp add: src'_def len)
  moreover have "\<forall>i < length fresh. buffer src' ! i =
          (if is_restart_at fresh i
           then 0xD0 OR ((next_marker ^^ restarts_before fresh i) ?nrm AND 7)
           else fresh ! i)"
    using el by (simp add: src'_def rf restarts_before_def m7)
  moreover have "next_restart_marker src'
         = (next_marker ^^ restarts_before fresh (length fresh)) ?nrm"
    using fin by (simp add: src'_def rf restarts_before_def)
  moreover have "(if last fresh = 0xFF \<and> 1 < length fresh
         then bytes_in_buffer src' = length fresh - 1
              \<and> file_pos src' = file_pos src2 + int (length fresh) - 1
         else bytes_in_buffer src' = length fresh
              \<and> file_pos src' = file_pos src2 + int (length fresh))"
    by (simp add: src'_def)
  ultimately show ?thesis
    using fill by blast
qed

theorem fill_input_buffer_rewrites_restart_markers_witness:
  "start_positions_count example_src \<noteq> 0
   \<and> start_positions_at example_src 0 = Inr 2
   \<and> 2 \<le> file_pos example_src
   \<and> next_restart_marker example_src < 8
   \<and> fread (infile example_src) 2 4 = [0x11, 0x22, 0xFF, 0xD0]
   \<and> (\<exists>src'. fill_input_buffer example_src = Inr src'
         \<and> buffer src' ! 2 = 0xFF \<and> buffer src' ! 3 = 0xD3
         \<and> next_restart_marker src' = 4
         \<and> bytes_in_buffer src' = 4 \<and> file_pos src' = 6)"
proof -
  define src2 where "src2 = example_src\<lparr>next_start_offset := 0, next_start_position := 2,
     stop_position := 6, file_pos := 2\<rparr>"
  let ?fresh = "[0x11, 0x22, 0xFF, 0xD0] :: byte list"
  have h1: "start_positions_count example_src \<noteq> 0"
    and h2: "start_positions_at example_src 0 = Inr 2"
    and h3: "2 \<le> file_pos example_src"
    and h7: "next_restart_marker example_src < 8"
    by (simp_all add: example_src_def start_positions_at_def)
  have h4: "fill_segment example_src = Inr (src2, 4)"
    by (simp add: fill_segment_def compute_next_positions_def start_positions_at_def
        example_src_def src2_def fseeko_def MIN_size_def INPUT_BUF_SIZE_def Let_def)
  have fr: "fread (infile example_src) 2 4 = ?fresh"
    by (simp add: fread_def example_src_def example_file_def)
  have h5: "?fresh = fread (infile src2) (file_pos src2) 4"
    using fr by (simp add: src2_def)
  have u: "[0..<3] = [0, Suc 0, Suc (Suc 0)]"
    "[0..<4] = [0, Suc 0, Suc (Suc 0), Suc (Suc (Suc 0))]"
    by (simp_all add: eval_nat_numeral)
  have m: "is_restart_at ?fresh 3" "\<not> is_restart_at ?fresh 2"
    "restarts_before ?fresh 3 = 0" "restarts_before ?fresh 4 = 1"
    unfolding restarts_before_def u
    by (simp_all add: is_restart_at_def)
  have nrm: "next_restart_marker example_src = 3"
    by (simp add: example_src_def)
  have pos2: "file_pos src2 = 2"
    by (simp add: src2_def)
  from fill_input_buffer_rewrites_restart_markers [OF h1 h2 h3 h4 h5 _ h7]
  obtain src' where
    f: "fill_input_buffer example_src = Inr src'" and
    el: "\<And>i. i < length ?fresh \<Longrightarrow> buffer src' ! i =
          (if is_restart_at ?fresh i
           then 0xD0 OR ((next_marker ^^ restarts_before ?fresh i)
                          (next_restart_marker example_src) AND 7)
           else ?fresh ! i)" and
    nm: "next_restart_marker src'
         = (next_marker ^^ restarts_before ?fresh (length ?fresh))
             (next_restart_marker example_src)" and
    cnt: "(if last ?fresh = 0xFF \<and> 1 < length ?fresh
         then bytes_in_buffer src' = length ?fresh - 1
              \<and> file_pos src' = file_pos src2 + int (length ?fresh) - 1
         else bytes_in_buffer src' = length ?fresh
              \<and> file_pos src' = file_pos src2 + int (length ?fresh))"
    by auto
  have "buffer src' ! 2 = 0xFF"
    using el [of 2] m(2) by simp
  moreover have "buffer src' ! 3 = 0xD3"
    using el [of 3] m(1,3) by (simp add: nrm)
  moreover have "length ?fresh = 4" by simp
  then have "next_restart_marker src' = 4"
    using nm unfolding nrm by (simp only: m(4)) (simp add: next_marker_def)
  moreover have "bytes_in_buffer src' = 4" "file_pos src' = 6"
    using cnt by (simp_all add: pos2)
  ultimately have "\<exists>src'. fill_input_buffer example_src = Inr src'
         \<and> buffer src' ! 2 = 0xFF \<and> buffer src' ! 3 = 0xD3
         \<and> next_restart_marker src' = 4
         \<and> bytes_in_buffer src' = 4 \<and> file_pos src' = 6"
    using f by blast
  with h1 h2 h3 h7 fr show ?thesis by blast
qed



section \<open>Reads of the table of positions\<close>




















text \<open>
  The bound on the fills is needed: the source does not know the height of the window.
  Once the last row of the window has been read to its end, one more fill jumps a
  further row down, and for a window that ends in the last row of the grid the
  \<open>g_assert\<close> fails.
\<close>

lemma fill_after_window_fails:
  "window_exhausted 1 (example_src\<lparr>next_start_offset := 0, file_pos := 6, stop_position := 6\<rparr>)
   \<and> fill_input_buffer (example_src\<lparr>next_start_offset := 0, file_pos := 6, stop_position := 6\<rparr>)
       = Inl (AssertionFailed ''next_start_offset'')"
  by (simp add: window_exhausted_def fill_input_buffer_def fill_rewrite_markers_def
      fill_segment_def compute_next_positions_def start_positions_at_def example_src_def
      Let_def)

section \<open>The rows the reader writes\<close>





lemma read_scanlines_done:
  "\<not> rows_left st > 0 \<Longrightarrow> read_scanlines d_x w ow stride st batches = Inr st"
  by (cases batches) simp_all










section \<open>Arithmetic of the doubles\<close>















section \<open>The region router\<close>

lemma get_dimensions_above:
  "layer_count osr \<le> layer \<Longrightarrow> get_dimensions osr layer = Inr (0, 0)"
  by (simp add: get_dimensions_def)

lemma read_region_no_layer:
  "layers_at osr layer = Inl e \<Longrightarrow>
     read_region decoder osr mem dest x y layer w h = Some (Inl e)"
  by (simp add: read_region_def)

lemma layers_at_outside:
  "layer < 0 \<or> int (length (layers d)) \<le> layer \<Longrightarrow> data osr = Some d \<Longrightarrow>
     layers_at osr layer = Inl OutOfBounds"
  by (auto simp: layers_at_def)

text \<open>
  C1. The slide that setup builds from the example file has four levels. For the index
  4 \<open>get_dimensions\<close> returns \<open>(0, 0)\<close>, as for every index from \<open>layer_count\<close> on.
  For the index \<open>-1\<close> its bounds check, which tests \<open>layer >= layer_count\<close> only, lets
  the index through and the level is read outside the array. \<open>read_region\<close> has no
  bounds check: for both indices it reads the level outside the array.
\<close>

theorem out_of_range_layer_is_read:
  "openslide_add_jpeg_ops (Some example_osr) [example_fragment 0]
     = Some (Inr (Some (example_result 16)))
   \<and> layer_count (example_result 16) = 4
   \<and> get_dimensions (example_result 16) 4 = Inr (0, 0)
   \<and> get_dimensions (example_result 16) (- 1) = Inl OutOfBounds
   \<and> read_region decoder (example_result 16) mem dest x y 4 w h = Some (Inl OutOfBounds)
   \<and> read_region decoder (example_result 16) mem dest x y (- 1) w h
       = Some (Inl OutOfBounds)"
proof -
  have cw: "create_width_to_layer_map [example_fragment 0] [example_jpeg] =
      Some (Inr (example_map 16))"
    using example_create_width_to_layer_map [of 0] by simp
  have ok: "openslide_add_jpeg_ops (Some example_osr) [example_fragment 0]
     = Some (Inr (Some (example_result 16)))"
    using cw by (rule example_setup)
  have la: "layers_at (example_result 16) 4 = Inl OutOfBounds"
    "layers_at (example_result 16) (- 1) = Inl OutOfBounds"
    by (simp_all add: layers_at_def example_result_def)
  have "get_dimensions (example_result 16) 4 = Inr (0, 0)"
    by (rule get_dimensions_above) (simp add: example_result_def)
  moreover have "get_dimensions (example_result 16) (- 1) = Inl OutOfBounds"
    by (simp add: get_dimensions_def la) (simp add: example_result_def)
  moreover have "layer_count (example_result 16) = 4"
    by (simp add: example_result_def)
  ultimately show ?thesis
    using ok la by (simp add: read_region_no_layer)
qed








end
